(* ===== verification/Prelude.thy ===== *)
theory Prelude
  imports Main "HOL-Library.Word" "HOL-Library.Multiset"
begin

text \<open>
  Shared vocabulary of the development: the machine integer types of the C++ sources, the
  collections of simp rules the component theories extend, lemmas on maps, lists and words that
  several components use, and the generic notion of a reachable state with the locale that lifts
  a one-step invariant to every reachable state.
\<close>

section \<open>Machine types\<close>

text \<open>\<open>size_t\<close> and \<open>unsigned\<close> on the LP64 targets the build supports (UNIX only).\<close>

type_synonym size_t = "64 word"
type_synonym uint = "32 word"
type_synonym ulonglong = "64 word"

text \<open>\<open>pid_t\<close> is only compared with \<open>-1\<close> and used as a key: an integer.\<close>

type_synonym pid_t = int

section \<open>Rule collections\<close>

named_theorems inv_rules "preservation rules of the component invariants"
named_theorems op_simps "characteristic equations of the modelled operations"

section \<open>Words\<close>

lemma unat_add_if_small:
  fixes a b :: "'a::len word"
  assumes "unat a + unat b < 2 ^ LENGTH('a)"
  shows "unat (a + b) = unat a + unat b"
  using assms by (simp add: unat_word_ariths)

lemma unat_inc_below:
  fixes a b :: "'a::len word"
  assumes "a < b"
  shows "unat (a + 1) = Suc (unat a)"
proof -
  have "Suc (unat a) \<le> unat b" using assms by (simp add: word_less_nat_alt)
  also have "unat b < 2 ^ LENGTH('a)" by (rule unsigned_less)
  finally have "Suc (unat a) < 2 ^ LENGTH('a)" .
  then show ?thesis by (simp add: unat_word_ariths)
qed

lemma unat_dec_pos:
  fixes a :: "'a::len word"
  assumes "0 < unat a"
  shows "unat (a - 1) = unat a - 1"
  using assms by (simp add: unat_minus_one unat_gt_0)

section \<open>Maps\<close>

text \<open>How many entries of a map satisfy a predicate on values.\<close>

definition count_in :: "('k \<rightharpoonup> 'v) \<Rightarrow> ('v \<Rightarrow> bool) \<Rightarrow> nat" where
  "count_in m P = card {k. \<exists>v. m k = Some v \<and> P v}"

lemma count_in_empty [simp]: "count_in Map.empty P = 0"
  by (simp add: count_in_def)

lemma finite_count_set: "finite (dom m) \<Longrightarrow> finite {k. \<exists>v. m k = Some v \<and> P v}"
  by (rule finite_subset [of _ "dom m"]) auto

lemma count_in_insert:
  assumes "finite (dom m)" "m k = None"
  shows "count_in (m(k \<mapsto> v)) P = count_in m P + (if P v then 1 else 0)"
proof -
  have eq: "{j. \<exists>w. (m(k \<mapsto> v)) j = Some w \<and> P w} =
      (if P v then insert k {j. \<exists>w. m j = Some w \<and> P w} else {j. \<exists>w. m j = Some w \<and> P w})"
    using assms(2) by auto
  show ?thesis
    unfolding count_in_def eq using assms finite_count_set [OF assms(1), of P] by simp
qed

lemma count_in_delete:
  assumes "finite (dom m)" "m k = Some v"
  shows "count_in m P = count_in (m(k := None)) P + (if P v then 1 else 0)"
proof -
  have "count_in ((m(k := None))(k \<mapsto> v)) P
      = count_in (m(k := None)) P + (if P v then 1 else 0)"
    using assms(1) by (intro count_in_insert) auto
  moreover have "(m(k := None))(k \<mapsto> v) = m"
    using assms(2) by auto
  ultimately show ?thesis by simp
qed

lemma mset_set_dom_insert:
  "finite (dom m) \<Longrightarrow> m k = None \<Longrightarrow> mset_set (dom (m(k \<mapsto> v))) = add_mset k (mset_set (dom m))"
  by (simp add: domIff)

lemma mset_set_dom_delete:
  assumes "finite (dom m)" "m k = Some v"
  shows "mset_set (dom m) = add_mset k (mset_set (dom (m(k := None))))"
proof -
  have "dom m = insert k (dom m - {k})" using assms(2) by auto
  then have "mset_set (dom m) = add_mset k (mset_set (dom m - {k}))"
    using assms(1) by (metis Diff_iff finite_Diff insertI1 mset_set.insert)
  then show ?thesis by simp
qed

text \<open>
  \<open>std::map::emplace\<close> and \<open>std::unordered_map::emplace\<close>: an existing entry is kept.
\<close>

definition map_emplace :: "'k \<Rightarrow> 'v \<Rightarrow> ('k \<rightharpoonup> 'v) \<Rightarrow> ('k \<rightharpoonup> 'v)" where
  "map_emplace k v m = (case m k of None \<Rightarrow> m(k \<mapsto> v) | Some _ \<Rightarrow> m)"

lemma map_emplace_simps [simp]:
  "m k = None \<Longrightarrow> map_emplace k v m = m(k \<mapsto> v)"
  "m k = Some w \<Longrightarrow> map_emplace k v m = m"
  by (simp_all add: map_emplace_def)

lemma finite_dom_emplace [simp]: "finite (dom (map_emplace k v m)) = finite (dom m)"
  by (cases "m k") auto

lemma map_emplace_lookup:
  "map_emplace k v m j = (if j = k \<and> m k = None then Some v else m j)"
  by (cases "m k") auto

lemma count_in_emplace:
  "finite (dom m) \<Longrightarrow>
   count_in (map_emplace k v m) P = count_in m P + (if m k = None \<and> P v then 1 else 0)"
  by (cases "m k") (simp_all add: count_in_insert)

section \<open>Undefined behaviour\<close>

text \<open>
  Operations that dereference a pointer the code does not check answer \<open>Inl\<close> of the kind of
  undefined behaviour instead of a value; \<open>and_then\<close> sequences them.
\<close>

datatype Undefined = Null_Deref | Empty_Container | Dangling_Iterator | Dangling_Pointer

definition and_then :: "'e + 'a \<Rightarrow> ('a \<Rightarrow> 'e + 'b) \<Rightarrow> 'e + 'b" where
  "and_then m f = (case m of Inl e \<Rightarrow> Inl e | Inr x \<Rightarrow> f x)"

lemma and_then_simps [simp]:
  "and_then (Inl e) f = Inl e"
  "and_then (Inr x) f = f x"
  by (simp_all add: and_then_def)

lemma and_then_Inr: "and_then m f = Inr y \<longleftrightarrow> (\<exists>x. m = Inr x \<and> f x = Inr y)"
  by (cases m) auto

lemma and_then_cong [fundef_cong]:
  "m = m' \<Longrightarrow> (\<And>x. m' = Inr x \<Longrightarrow> f x = f' x) \<Longrightarrow> and_then m f = and_then m' f'"
  by (cases m') auto

section \<open>Lists\<close>

text \<open>The last \<open>n\<close> elements of a list (all of them when there are fewer).\<close>

definition last_n :: "nat \<Rightarrow> 'a list \<Rightarrow> 'a list" where
  "last_n n xs = drop (length xs - n) xs"

lemma length_last_n [simp]: "length (last_n n xs) = min n (length xs)"
  by (simp add: last_n_def)

lemma last_n_all [simp]: "length xs \<le> n \<Longrightarrow> last_n n xs = xs"
  by (simp add: last_n_def)

lemma set_last_n: "set (last_n n xs) \<subseteq> set xs"
  by (simp add: last_n_def set_drop_subset)

lemma last_n_append_last_n: "last_n n (last_n n xs @ ys) = last_n n (xs @ ys)"
  by (cases "length xs \<le> n") (auto simp: last_n_def drop_append add.commute)

text \<open>
  Splitting at a separator and joining with one: the reference notion of the segments of a path.
  \<open>split_on\<close> keeps empty segments (\<open>split_on c []\<close> is \<open>[[]]\<close>); \<open>nonempty_fields\<close> drops them.
\<close>

fun split_on :: "'a \<Rightarrow> 'a list \<Rightarrow> 'a list list" where
  "split_on s [] = [[]]"
| "split_on s (c # cs) =
     (if c = s then [] # split_on s cs
      else case split_on s cs of [] \<Rightarrow> [[c]] | t # ts \<Rightarrow> (c # t) # ts)"

definition nonempty_fields :: "'a \<Rightarrow> 'a list \<Rightarrow> 'a list list" where
  "nonempty_fields s xs = filter (\<lambda>t. t \<noteq> []) (split_on s xs)"

fun join_with :: "'a list \<Rightarrow> 'a list list \<Rightarrow> 'a list" where
  "join_with s [] = []"
| "join_with s [x] = x"
| "join_with s (x # y # xs) = x @ s @ join_with s (y # xs)"

lemma split_on_not_Nil [simp]: "split_on s xs \<noteq> []"
  by (induction xs) (auto split: list.splits)

lemma split_on_no_sep: "s \<notin> set xs \<Longrightarrow> split_on s xs = [xs]"
  by (induction xs) auto

lemma split_on_append_sep: "s \<notin> set xs \<Longrightarrow> split_on s (xs @ s # ys) = xs # split_on s ys"
  by (induction xs) auto

lemma sep_not_in_split_on: "t \<in> set (split_on s xs) \<Longrightarrow> s \<notin> set t"
  by (induction xs arbitrary: t) (auto split: list.splits if_splits)

lemma fields_Nil [simp]: "nonempty_fields s [] = []"
  by (simp add: nonempty_fields_def)

lemma fields_sep [simp]: "nonempty_fields s (s # xs) = nonempty_fields s xs"
  by (simp add: nonempty_fields_def)

lemma fields_single: "xs \<noteq> [] \<Longrightarrow> s \<notin> set xs \<Longrightarrow> nonempty_fields s xs = [xs]"
  by (simp add: nonempty_fields_def split_on_no_sep)

lemma fields_append_sep:
  "xs \<noteq> [] \<Longrightarrow> s \<notin> set xs \<Longrightarrow> nonempty_fields s (xs @ s # ys) = xs # nonempty_fields s ys"
  by (simp add: nonempty_fields_def split_on_append_sep)

lemma fields_props: "t \<in> set (nonempty_fields s xs) \<Longrightarrow> t \<noteq> [] \<and> s \<notin> set t"
  by (auto simp: nonempty_fields_def dest: sep_not_in_split_on)

lemma fields_join_with:
  "\<forall>t \<in> set ts. t \<noteq> [] \<and> s \<notin> set t \<Longrightarrow> nonempty_fields s (join_with [s] ts) = ts"
  by (induction "[s]" ts rule: join_with.induct) (auto simp: fields_single fields_append_sep)

lemma join_with_split_on: "join_with [s] (split_on s xs) = xs"
proof (induction xs)
  case (Cons c cs)
  obtain t ts where "split_on s cs = t # ts" by (cases "split_on s cs") auto
  with Cons show ?case by (cases ts) auto
qed simp

lemma split_on_join_with:
  "ts \<noteq> [] \<Longrightarrow> \<forall>t \<in> set ts. s \<notin> set t \<Longrightarrow> split_on s (join_with [s] ts) = ts"
  by (induction "[s]" ts rule: join_with.induct) (auto simp: split_on_no_sep split_on_append_sep)

lemma join_with_snoc:
  "ts \<noteq> [] \<Longrightarrow> join_with s (ts @ [t]) = join_with s ts @ s @ t"
  by (induction s ts rule: join_with.induct) auto

section \<open>Transition systems\<close>

text \<open>
  States reachable from an initial state by labelled steps, and the locale that carries an
  invariant of the steps to all of them. Each stateful component interprets it.
\<close>

inductive reach :: "('s \<Rightarrow> bool) \<Rightarrow> ('s \<Rightarrow> 'e \<Rightarrow> 's \<Rightarrow> bool) \<Rightarrow> 's \<Rightarrow> bool"
  for init :: "'s \<Rightarrow> bool" and step :: "'s \<Rightarrow> 'e \<Rightarrow> 's \<Rightarrow> bool" where
  reach_init: "init s \<Longrightarrow> reach init step s"
| reach_step: "reach init step s \<Longrightarrow> step s e t \<Longrightarrow> reach init step t"

text \<open>A run with its labels.\<close>

inductive steps :: "('s \<Rightarrow> 'e \<Rightarrow> 's \<Rightarrow> bool) \<Rightarrow> 's \<Rightarrow> 'e list \<Rightarrow> 's \<Rightarrow> bool"
  for step :: "'s \<Rightarrow> 'e \<Rightarrow> 's \<Rightarrow> bool" where
  steps_Nil [intro]: "steps step s [] s"
| steps_Cons [intro]: "step s e t \<Longrightarrow> steps step t es u \<Longrightarrow> steps step s (e # es) u"

lemma steps_snoc: "steps step s es t \<Longrightarrow> step t e u \<Longrightarrow> steps step s (es @ [e]) u"
  by (induction rule: steps.induct) auto

lemma reach_steps: "steps step s es t \<Longrightarrow> reach init step s \<Longrightarrow> reach init step t"
  by (induction rule: steps.induct) (auto intro: reach_step)

locale invariant_system =
  fixes init :: "'s \<Rightarrow> bool"
    and step :: "'s \<Rightarrow> 'e \<Rightarrow> 's \<Rightarrow> bool"
    and inv :: "'s \<Rightarrow> bool"
  assumes init_inv: "init s \<Longrightarrow> inv s"
    and step_inv: "inv s \<Longrightarrow> step s e t \<Longrightarrow> inv t"
begin

lemma reach_inv: "reach init step s \<Longrightarrow> inv s"
  by (induction rule: reach.induct) (auto intro: init_inv step_inv)

lemma reach_from_inv: "inv s \<Longrightarrow> reach (\<lambda>x. x = s) step t \<Longrightarrow> inv t"
  by (erule reach.induct) (auto intro: step_inv)

end

text \<open>
  A system whose steps are those of a function on labels, seen through an abstraction: every run is
  then the fold of that function over its labels.
\<close>

locale step_refinement = invariant_system init step inv
  for init :: "'s \<Rightarrow> bool" and step :: "'s \<Rightarrow> 'e \<Rightarrow> 's \<Rightarrow> bool" and inv :: "'s \<Rightarrow> bool" +
  fixes abs :: "'s \<Rightarrow> 'a" and spec :: "'e \<Rightarrow> 'a \<Rightarrow> 'a"
  assumes step_refines: "inv s \<Longrightarrow> step s e t \<Longrightarrow> abs t = spec e (abs s)"
begin

lemma steps_refine: "steps step s es t \<Longrightarrow> inv s \<Longrightarrow> abs t = fold spec es (abs s)"
  by (induction rule: steps.induct) (auto simp: step_refines step_inv)

end

section \<open>Refinement of a sequence of calls\<close>

text \<open>
  Running a list of calls on a component whose calls may be undefined, and on a specification
  whose calls are total. The locale lifts a one-call simulation to every sequence of calls.
\<close>

fun run_calls :: "('e \<Rightarrow> 's \<Rightarrow> 'u + ('s \<times> 'r)) \<Rightarrow> 'e list \<Rightarrow> 's \<Rightarrow> 'u + ('s \<times> 'r list)" where
  "run_calls f [] s = Inr (s, [])"
| "run_calls f (e # es) s =
     and_then (f e s) (\<lambda>(s', r). and_then (run_calls f es s') (\<lambda>(t, rs). Inr (t, r # rs)))"

fun run_spec :: "('e \<Rightarrow> 'a \<Rightarrow> 'a \<times> 'r) \<Rightarrow> 'e list \<Rightarrow> 'a \<Rightarrow> 'a \<times> 'r list" where
  "run_spec g [] a = (a, [])"
| "run_spec g (e # es) a = (let (a', r) = g e a; (b, rs) = run_spec g es a' in (b, r # rs))"

locale call_refinement =
  fixes inv :: "'s \<Rightarrow> bool"
    and abs :: "'s \<Rightarrow> 'a"
    and call :: "'e \<Rightarrow> 's \<Rightarrow> 'u + ('s \<times> 'r)"
    and const :: "'s \<Rightarrow> 'c"
    and spec :: "'c \<Rightarrow> 'e \<Rightarrow> 'a \<Rightarrow> 'a \<times> 'r"
  assumes call_simulates:
      "inv s \<Longrightarrow> \<exists>t r. call e s = Inr (t, r) \<and> inv t \<and> const t = const s \<and>
         spec (const s) e (abs s) = (abs t, r)"
begin

lemma run_simulates:
  "inv s \<Longrightarrow> \<exists>t rs. run_calls call es s = Inr (t, rs) \<and> inv t \<and> const t = const s \<and>
      run_spec (spec (const s)) es (abs s) = (abs t, rs)"
proof (induction es arbitrary: s)
  case (Cons e es)
  from call_simulates [OF Cons.prems, of e] obtain t r where
    t: "call e s = Inr (t, r)" "inv t" "const t = const s" "spec (const s) e (abs s) = (abs t, r)"
    by blast
  from Cons.IH [OF t(2)] obtain u rs where
    "run_calls call es t = Inr (u, rs)" "inv u" "const u = const t"
    "run_spec (spec (const t)) es (abs t) = (abs u, rs)" by blast
  with t show ?case by simp
qed simp

end

end
