(* ===== verification/Aps_Job.thy ===== *)
theory Aps_Job
  imports Prelude
begin

text \<open>
  The plain data of the asynchronous process scheduler: process options, job specifications, the
  two lanes, and a job in each of its three stages (pending, running, finished), from
  \<^verbatim>\<open>process_options.h\<close> and the \<^verbatim>\<open>aps_*_job.h\<close> headers. Time points of
  \<open>std::chrono::steady_clock\<close> are integers counting nanoseconds, durations in
  \<open>std::chrono::seconds\<close> integers counting seconds. The fields \<open>id\<close> and
  \<open>opts\<close> of a specification are called \<open>job_id\<close> (\<open>id\<close> is a constant of HOL) and \<open>job_opts\<close>.
\<close>

record Process_Options =
  exe :: string
  args :: "string list"
  envs :: "string \<rightharpoonup> string"
  interactive :: bool

record Job_Specification =
  job_id :: string
  job_opts :: Process_Options

datatype Lane = FAST | SLOW

record Pending_Job =
  pj_spec :: Job_Specification
  pj_lane :: Lane

text \<open>
  The timer of a running job is owned through a \<open>unique_ptr\<close>: \<open>None\<close> is the null pointer,
  \<open>Some t\<close> an armed timer that expires \<open>t\<close> seconds after the job started.
\<close>

record Running_Job =
  rj_spec :: Job_Specification
  rj_lane :: Lane
  rj_pid :: pid_t
  rj_start_time :: int
  rj_timer :: "int option"

record Finished_Job =
  fj_spec :: Job_Specification
  fj_start_time :: int
  fj_end_time :: int
  fj_exit_code :: "32 word"

text \<open>Value-initialised instances, as the default member initialisers give them.\<close>

definition default_Process_Options :: Process_Options where
  "default_Process_Options = \<lparr>exe = [], args = [], envs = Map.empty, interactive = False\<rparr>"

definition default_Job_Specification :: Job_Specification where
  "default_Job_Specification = \<lparr>job_id = [], job_opts = default_Process_Options\<rparr>"

definition default_Finished_Job :: Finished_Job where
  "default_Finished_Job =
     \<lparr>fj_spec = default_Job_Specification, fj_start_time = 0, fj_end_time = 0,
      fj_exit_code = - 1\<rparr>"

lemma Lane_cases_iff: "l \<noteq> FAST \<longleftrightarrow> l = SLOW" "l \<noteq> SLOW \<longleftrightarrow> l = FAST"
  by (cases l; simp)+

lemma all_Lane: "(\<forall>l. P l) \<longleftrightarrow> P FAST \<and> P SLOW"
  by (metis Lane.exhaust)

instantiation Lane :: finite
begin

instance
proof
  have "(UNIV :: Lane set) = {FAST, SLOW}" by (auto simp: Lane_cases_iff)
  then show "finite (UNIV :: Lane set)" by (metis finite.emptyI finite.insertI)
qed

end

lemma UNIV_Lane: "(UNIV :: Lane set) = {FAST, SLOW}"
  by (auto simp: Lane_cases_iff)

end
