(* ===== verification/Aps_Pending_Queue.thy ===== *)
theory Aps_Pending_Queue
  imports Aps_Job
begin

text \<open>
  \<^verbatim>\<open>process/aps_pending_queue.cpp\<close>: the queue of jobs waiting for a lane, a
  \<open>std::deque\<close> with a mutex. Each operation is one function on the deque; \<open>size\<close> and
  \<open>front\<close> do not take the mutex in the code and are taken to read the deque at one moment. \<open>front\<close> and \<open>pop\<close> on an empty deque are undefined behaviour in C++ and
  \<open>None\<close> here. The locale is the contract the scheduler relies on.
\<close>

section \<open>The interface\<close>

locale fifo_queue =
  fixes items :: "'q \<Rightarrow> 'a list"
    and is_empty :: "'q \<Rightarrow> bool"
    and size_of :: "'q \<Rightarrow> nat"
    and enqueue :: "'a \<Rightarrow> 'q \<Rightarrow> 'q"
    and peek :: "'q \<Rightarrow> 'a option"
    and dequeue :: "'q \<Rightarrow> ('a \<times> 'q) option"
  assumes empty_items: "is_empty q \<longleftrightarrow> items q = []"
    and size_items: "size_of q = length (items q)"
    and enqueue_items: "items (enqueue x q) = items q @ [x]"
    and peek_items: "peek q = (case items q of [] \<Rightarrow> None | x # _ \<Rightarrow> Some x)"
    and dequeue_None: "dequeue q = None \<longleftrightarrow> items q = []"
    and dequeue_Some: "dequeue q = Some (x, q') \<Longrightarrow> items q = x # items q'"
begin

primrec enqueue_all :: "'a list \<Rightarrow> 'q \<Rightarrow> 'q" where
  "enqueue_all [] q = q"
| "enqueue_all (x # xs) q = enqueue_all xs (enqueue x q)"

primrec dequeue_n :: "nat \<Rightarrow> 'q \<Rightarrow> ('a list \<times> 'q) option" where
  "dequeue_n 0 q = Some ([], q)"
| "dequeue_n (Suc n) q =
     (case dequeue q of None \<Rightarrow> None
      | Some (x, q') \<Rightarrow> map_option (\<lambda>(xs, q''). (x # xs, q'')) (dequeue_n n q'))"

lemma enqueue_all_items: "items (enqueue_all xs q) = items q @ xs"
  by (induction xs arbitrary: q) (simp_all add: enqueue_items)

lemma dequeue_obtain:
  assumes "items q = x # xs"
  obtains q' where "dequeue q = Some (x, q')" "items q' = xs"
  using assms dequeue_None [of q] dequeue_Some [of q]
  by (cases "dequeue q") fastforce+

lemma dequeue_peek: "dequeue q = Some (x, q') \<Longrightarrow> peek q = Some x"
  by (auto simp: peek_items dest: dequeue_Some)

lemma dequeue_n_items:
  "n \<le> length (items q) \<Longrightarrow>
   \<exists>q'. dequeue_n n q = Some (take n (items q), q') \<and> items q' = drop n (items q)"
proof (induction n arbitrary: q)
  case 0
  then show ?case by simp
next
  case (Suc n)
  then obtain x xs where xs: "items q = x # xs" by (cases "items q") auto
  then obtain q' where q': "dequeue q = Some (x, q')" "items q' = xs"
    by (rule dequeue_obtain)
  with Suc.prems xs have "n \<le> length (items q')" by simp
  from Suc.IH [OF this] q' xs show ?case by auto
qed

lemma fifo_order:
  "items q = [] \<Longrightarrow> \<exists>q'. dequeue_n (length xs) (enqueue_all xs q) = Some (xs, q') \<and> items q' = []"
  using dequeue_n_items [of "length xs" "enqueue_all xs q"] by (simp add: enqueue_all_items)

end

section \<open>The implementation\<close>

record Pending_Q =
  q_deque :: "Pending_Job list"

definition Pending_Q_new :: Pending_Q where
  "Pending_Q_new = \<lparr>q_deque = []\<rparr>"

definition Pending_Q_empty :: "Pending_Q \<Rightarrow> bool" where
  "Pending_Q_empty q = (q_deque q = [])"

definition Pending_Q_size :: "Pending_Q \<Rightarrow> nat" where
  "Pending_Q_size q = length (q_deque q)"

definition Pending_Q_push :: "Pending_Job \<Rightarrow> Pending_Q \<Rightarrow> Pending_Q" where
  "Pending_Q_push pj q = q\<lparr>q_deque := q_deque q @ [pj]\<rparr>"

definition Pending_Q_front :: "Pending_Q \<Rightarrow> Pending_Job option" where
  "Pending_Q_front q = (case q_deque q of [] \<Rightarrow> None | pj # _ \<Rightarrow> Some pj)"

definition Pending_Q_pop :: "Pending_Q \<Rightarrow> (Pending_Job \<times> Pending_Q) option" where
  "Pending_Q_pop q =
     (case q_deque q of [] \<Rightarrow> None | pj # rest \<Rightarrow> Some (pj, q\<lparr>q_deque := rest\<rparr>))"

lemmas Pending_Q_defs = Pending_Q_new_def Pending_Q_empty_def Pending_Q_size_def
  Pending_Q_push_def Pending_Q_front_def Pending_Q_pop_def

interpretation pending: fifo_queue q_deque Pending_Q_empty Pending_Q_size Pending_Q_push
  Pending_Q_front Pending_Q_pop
  by unfold_locales (auto simp: Pending_Q_defs split: list.splits)

lemma Pending_Q_push_deque [simp]: "q_deque (Pending_Q_push pj q) = q_deque q @ [pj]"
  by (rule pending.enqueue_items)

lemma Pending_Q_new_deque [simp]: "q_deque Pending_Q_new = []"
  by (simp add: Pending_Q_new_def)

end
