(* ===== verification/Aps_Finished_Storage.thy ===== *)
theory Aps_Finished_Storage
  imports Aps_Job
begin

text \<open>
  \<^verbatim>\<open>process/aps_finished_istorage.h\<close> and \<^verbatim>\<open>process/aps_finished_storage.cpp\<close>: where
  the scheduler records the jobs that exited. The abstract class is the locale, the in-memory
  implementation its interpretation. \<open>emplace\<close> keeps an entry that is already there, and
  \<open>find\<close> answers a value-initialised job for an unknown identifier.
\<close>

section \<open>The interface\<close>

text \<open>
  \<open>recorded\<close> is the job an implementation has on record for an identifier. The first record of
  an identifier wins.
\<close>

locale finished_istorage =
  fixes recorded :: "'s \<Rightarrow> string \<rightharpoonup> Finished_Job"
    and store_op :: "Finished_Job \<Rightarrow> 's \<Rightarrow> 's"
    and find_op :: "string \<Rightarrow> 's \<Rightarrow> Finished_Job"
  assumes store_recorded:
      "recorded (store_op fj s) =
         (if recorded s (job_id (fj_spec fj)) = None
          then (recorded s)(job_id (fj_spec fj) \<mapsto> fj) else recorded s)"
    and find_recorded:
      "find_op i s = (case recorded s i of None \<Rightarrow> default_Finished_Job | Some fj \<Rightarrow> fj)"
begin

lemma find_store_fresh:
  "recorded s (job_id (fj_spec fj)) = None \<Longrightarrow> find_op (job_id (fj_spec fj)) (store_op fj s) = fj"
  by (simp add: find_recorded store_recorded)

lemma find_store_known:
  "recorded s (job_id (fj_spec fj)) = Some old \<Longrightarrow>
   find_op (job_id (fj_spec fj)) (store_op fj s) = old"
  by (simp add: find_recorded store_recorded)

lemma find_store_other:
  "i \<noteq> job_id (fj_spec fj) \<Longrightarrow> find_op i (store_op fj s) = find_op i s"
  by (simp add: find_recorded store_recorded)

lemma store_recorded_mono: "recorded s \<subseteq>\<^sub>m recorded (store_op fj s)"
  by (auto simp: map_le_def store_recorded)

lemma store_keys_match:
  "(\<And>i f. recorded s i = Some f \<Longrightarrow> job_id (fj_spec f) = i) \<Longrightarrow>
   recorded (store_op fj s) i = Some f \<Longrightarrow> job_id (fj_spec f) = i"
  by (auto simp: store_recorded split: if_splits)

end

section \<open>The implementation\<close>

record Finished_Storage =
  sink :: "string \<rightharpoonup> Finished_Job"

definition Finished_Storage_new :: Finished_Storage where
  "Finished_Storage_new = \<lparr>sink = Map.empty\<rparr>"

definition Finished_Storage_store :: "Finished_Job \<Rightarrow> Finished_Storage \<Rightarrow> Finished_Storage" where
  "Finished_Storage_store fj s = s\<lparr>sink := map_emplace (job_id (fj_spec fj)) fj (sink s)\<rparr>"

definition Finished_Storage_find :: "string \<Rightarrow> Finished_Storage \<Rightarrow> Finished_Job" where
  "Finished_Storage_find i s =
     (case sink s i of None \<Rightarrow> default_Finished_Job | Some fj \<Rightarrow> fj)"

interpretation storage: finished_istorage sink Finished_Storage_store Finished_Storage_find
  by unfold_locales
    (auto simp: Finished_Storage_store_def Finished_Storage_find_def map_emplace_def
      split: option.splits)

text \<open>
  A job stored under a fresh identifier is found again as it was stored, a second job under
  the same identifier does not replace the first one, and lookups of other identifiers are
  unaffected.
\<close>

lemma Finished_Storage_find_store:
  "Finished_Storage_find i (Finished_Storage_store fj s) =
     (if i = job_id (fj_spec fj) \<and> sink s i = None then fj else Finished_Storage_find i s)"
proof (cases "i = job_id (fj_spec fj)")
  case True
  then show ?thesis
    using storage.find_store_fresh [of s fj] storage.find_store_known [of s fj]
    by (cases "sink s i") (auto simp: Finished_Storage_find_def [of _ s])
next
  case False
  then show ?thesis by (simp add: storage.find_store_other)
qed

end
