(* ===== verification/Aps_P90.thy ===== *)
theory Aps_P90
  imports Prelude
begin

text \<open>
  \<^verbatim>\<open>process/aps_p90_estimator.cpp\<close>: a sliding window over the durations (in seconds) of the
  last jobs and the 90th percentile of that window. \<open>std::nth_element\<close> leaves at the chosen
  index the element a full sort would put there, so \<open>v[idx]\<close> is an element of the sorted window.
  \<open>pop_front\<close> on an empty deque (a window of capacity 0) is undefined behaviour and \<open>None\<close>.
\<close>

section \<open>The estimator\<close>

record P90_Estimator =
  p90_capacity :: size_t
  p90_samples :: "int list"

definition P90_Estimator_new :: "size_t \<Rightarrow> P90_Estimator" where
  "P90_Estimator_new cap = \<lparr>p90_capacity = cap, p90_samples = []\<rparr>"

text \<open>The default argument of the constructor.\<close>

definition P90_default_capacity :: size_t where
  "P90_default_capacity = 1000"

definition P90_Estimator_add :: "int \<Rightarrow> P90_Estimator \<Rightarrow> P90_Estimator option" where
  "P90_Estimator_add duration e =
     (if duration \<le> 0 then Some e
      else if unat (p90_capacity e) \<le> length (p90_samples e) then
        (case p90_samples e of
           [] \<Rightarrow> None
         | _ # rest \<Rightarrow> Some (e\<lparr>p90_samples := rest @ [duration]\<rparr>))
      else Some (e\<lparr>p90_samples := p90_samples e @ [duration]\<rparr>))"

text \<open>The index arithmetic is done on \<open>size_t\<close>.\<close>

definition P90_index :: "size_t \<Rightarrow> size_t" where
  "P90_index n = min ((n * 9 + 9) div 10 - 1) (n - 1)"

definition P90_Estimator_compute :: "P90_Estimator \<Rightarrow> int" where
  "P90_Estimator_compute e =
     (let n = of_nat (length (p90_samples e)) :: size_t
      in if n = 0 then 0 else sort (p90_samples e) ! unat (P90_index n))"

definition P90_Estimator_size :: "P90_Estimator \<Rightarrow> size_t" where
  "P90_Estimator_size e = of_nat (length (p90_samples e))"

section \<open>The window\<close>

definition P90_inv :: "P90_Estimator \<Rightarrow> bool" where
  "P90_inv e \<longleftrightarrow> 0 < unat (p90_capacity e) \<and> length (p90_samples e) \<le> unat (p90_capacity e)
     \<and> (\<forall>d \<in> set (p90_samples e). 0 < d)"

lemma P90_new_inv: "0 < cap \<Longrightarrow> P90_inv (P90_Estimator_new cap)"
  by (simp add: P90_inv_def P90_Estimator_new_def unat_gt_0 word_neq_0_conv)

lemma P90_add_window:
  assumes "P90_inv e"
  shows "P90_Estimator_add d e =
     Some (e\<lparr>p90_samples := last_n (unat (p90_capacity e))
                              (p90_samples e @ (if 0 < d then [d] else []))\<rparr>)"
proof (cases "0 < d")
  case True
  then show ?thesis
    using assms
    by (cases "p90_samples e") (auto simp: P90_Estimator_add_def P90_inv_def last_n_def)
next
  case False
  then show ?thesis
    using assms by (simp add: P90_Estimator_add_def P90_inv_def)
qed

lemma P90_add_inv [inv_rules]:
  assumes "P90_inv e" "P90_Estimator_add d e = Some e'"
  shows "P90_inv e'"
proof -
  define w where "w = p90_samples e @ (if 0 < d then [d] else [])"
  have e': "e' = e\<lparr>p90_samples := last_n (unat (p90_capacity e)) w\<rparr>"
    using assms by (simp add: P90_add_window w_def)
  have "\<forall>x \<in> set w. 0 < x" using assms(1) by (auto simp: P90_inv_def w_def)
  then have "\<forall>x \<in> set (last_n (unat (p90_capacity e)) w). 0 < x"
    using set_last_n [of "unat (p90_capacity e)" w] by blast
  then show ?thesis using assms(1) unfolding P90_inv_def e' by simp
qed

lemma P90_add_total: "P90_inv e \<Longrightarrow> \<exists>e'. P90_Estimator_add d e = Some e'"
  by (simp add: P90_add_window)

lemma P90_add_capacity: "P90_Estimator_add d e = Some e' \<Longrightarrow> p90_capacity e' = p90_capacity e"
  by (auto simp: P90_Estimator_add_def split: if_splits list.splits)

text \<open>A run of additions, as the scheduler makes them one exited job at a time.\<close>

fun P90_add_all :: "int list \<Rightarrow> P90_Estimator \<Rightarrow> P90_Estimator option" where
  "P90_add_all [] e = Some e"
| "P90_add_all (d # ds) e = Option.bind (P90_Estimator_add d e) (P90_add_all ds)"

lemma P90_add_all_window:
  assumes "P90_inv e"
  shows "P90_add_all ds e =
     Some (e\<lparr>p90_samples := last_n (unat (p90_capacity e))
                              (p90_samples e @ filter (\<lambda>d. 0 < d) ds)\<rparr>)"
  using assms
proof (induction ds arbitrary: e)
  case Nil
  then show ?case by (simp add: P90_inv_def)
next
  case (Cons d ds)
  obtain e' where e': "P90_Estimator_add d e = Some e'"
    using P90_add_total [OF Cons.prems] by blast
  with Cons.prems have "P90_inv e'" by (blast intro: P90_add_inv)
  from Cons.IH [OF this] e' show ?case
    by (auto simp: P90_add_window [OF Cons.prems] last_n_append_last_n)
qed

text \<open>
  C18: however many durations are added to a fresh estimator of positive capacity, no addition
  fails and the window holds exactly the most recent positive durations, in order, at most
  \<open>capacity\<close> of them.
\<close>

theorem P90_sliding_window:
  assumes "0 < cap"
  shows "P90_add_all ds (P90_Estimator_new cap) =
     Some \<lparr>p90_capacity = cap, p90_samples = last_n (unat cap) (filter (\<lambda>d. 0 < d) ds)\<rparr>"
  using P90_add_all_window [OF P90_new_inv [OF assms], of ds]
  by (simp add: P90_Estimator_new_def)

theorem P90_sliding_window_witness:
  "P90_add_all [5, 0, 7, 9] (P90_Estimator_new 2) =
     Some \<lparr>p90_capacity = 2, p90_samples = [7, 9]\<rparr>"
  using P90_sliding_window [of 2 "[5, 0, 7, 9]"] by (simp add: last_n_def)

section \<open>The percentile\<close>

lemma P90_index_unat:
  assumes "0 < n" "n < 2 ^ 60"
  shows "unat (P90_index (of_nat n)) = (9 * n + 9) div 10 - 1"
    and "(9 * n + 9) div 10 - 1 < n"
proof -
  have n: "unat (of_nat n :: size_t) = n"
    using assms by (simp add: unat_of_nat)
  have s: "unat (of_nat n * 9 + 9 :: size_t) = 9 * n + 9"
    using assms n by (simp add: unat_word_ariths)
  have d: "unat ((of_nat n * 9 + 9) div 10 :: size_t) = (9 * n + 9) div 10"
    by (simp add: unat_div s)
  have pos: "0 < (9 * n + 9) div 10" using assms by simp
  have i: "unat ((of_nat n * 9 + 9) div 10 - 1 :: size_t) = (9 * n + 9) div 10 - 1"
    using unat_dec_pos [of "(of_nat n * 9 + 9) div 10 :: size_t"] pos d by simp
  have j: "unat (of_nat n - 1 :: size_t) = n - 1"
    using unat_dec_pos [of "of_nat n :: size_t"] assms n by simp
  show lt: "(9 * n + 9) div 10 - 1 < n" using assms by linarith
  show "unat (P90_index (of_nat n)) = (9 * n + 9) div 10 - 1"
    using i j lt by (auto simp: P90_index_def min_def word_le_nat_alt)
qed

lemma P90_compute_sort:
  assumes "p90_samples e \<noteq> []" "length (p90_samples e) < 2 ^ 60"
  shows "P90_Estimator_compute e =
     sort (p90_samples e) ! ((9 * length (p90_samples e) + 9) div 10 - 1)"
proof -
  let ?n = "length (p90_samples e)"
  have "unat (of_nat ?n :: size_t) = ?n" using assms(2) by (simp add: unat_of_nat)
  then have "(of_nat ?n :: size_t) \<noteq> 0" using assms(1) by (metis length_0_conv unat_0)
  then show ?thesis
    using P90_index_unat [of ?n] assms by (simp add: P90_Estimator_compute_def Let_def)
qed

text \<open>
  Ranks in a sorted list: at least \<open>i + 1\<close> elements are below or equal to the element at
  index \<open>i\<close>, at most \<open>i\<close> are strictly below it.
\<close>

lemma sorted_rank_le:
  assumes "sorted xs" "i < length xs"
  shows "Suc i \<le> length (filter (\<lambda>x. x \<le> xs ! i) xs)"
proof -
  have "filter (\<lambda>x. x \<le> xs ! i) (take (Suc i) xs) = take (Suc i) xs"
    using assms by (auto simp: filter_id_conv in_set_conv_nth less_Suc_eq_le sorted_nth_mono)
  moreover have "length (filter (\<lambda>x. x \<le> xs ! i) (take (Suc i) xs))
      \<le> length (filter (\<lambda>x. x \<le> xs ! i) xs)"
    by (metis append_take_drop_id filter_append length_append le_add1)
  ultimately show ?thesis using assms by simp
qed

lemma sorted_rank_less:
  assumes "sorted xs" "i < length xs"
  shows "length (filter (\<lambda>x. x < xs ! i) xs) \<le> i"
proof -
  have "\<not> x < xs ! i" if "x \<in> set (drop i xs)" for x
    using that assms by (auto simp: in_set_conv_nth leD sorted_nth_mono)
  then have "filter (\<lambda>x. x < xs ! i) (drop i xs) = []"
    by (simp add: filter_empty_conv)
  then have "length (filter (\<lambda>x. x < xs ! i) xs) = length (filter (\<lambda>x. x < xs ! i) (take i xs))"
    by (metis append_take_drop_id append_Nil2 filter_append)
  also have "\<dots> \<le> i" by (rule order_trans [OF length_filter_le]) simp
  finally show ?thesis .
qed

lemma length_filter_sort: "length (filter P (sort xs)) = length (filter P xs)"
  by (metis mset_filter mset_sort size_mset)

text \<open>
  C17: on a non-empty window \<open>compute\<close> returns one of the samples, at least nine tenths of the
  samples are no longer than it, and fewer than nine tenths are shorter: it is the least sample
  with the 90 per cent property. The \<open>size_t\<close> index arithmetic does not wrap below \<open>2 ^ 60\<close> samples.
\<close>

theorem P90_compute_rank:
  assumes "p90_samples e \<noteq> []" "length (p90_samples e) < 2 ^ 60"
  shows "P90_Estimator_compute e \<in> set (p90_samples e)
    \<and> 9 * length (p90_samples e)
        \<le> 10 * length (filter (\<lambda>d. d \<le> P90_Estimator_compute e) (p90_samples e))
    \<and> 10 * length (filter (\<lambda>d. d < P90_Estimator_compute e) (p90_samples e))
        < 9 * length (p90_samples e)"
proof -
  let ?s = "p90_samples e" let ?n = "length ?s" let ?i = "(9 * ?n + 9) div 10 - 1"
  have i: "?i < length (sort ?s)" using P90_index_unat(2) [of ?n] assms by simp
  note p = P90_compute_sort [OF assms]
  have "Suc ?i \<le> length (filter (\<lambda>d. d \<le> P90_Estimator_compute e) ?s)"
    using sorted_rank_le [OF sorted_sort i] by (simp only: p length_filter_sort)
  moreover have "length (filter (\<lambda>d. d < P90_Estimator_compute e) ?s) \<le> ?i"
    using sorted_rank_less [OF sorted_sort i] by (simp only: p length_filter_sort)
  moreover have "P90_Estimator_compute e \<in> set ?s"
    using nth_mem [OF i] by (simp only: p set_sort)
  moreover have "0 < ?n" using assms(1) by simp
  ultimately show ?thesis by linarith
qed

theorem P90_compute_rank_witness:
  "P90_Estimator_compute \<lparr>p90_capacity = 1000, p90_samples = [7, 3, 5]\<rparr> = 7
   \<and> 9 * length [7, 3, 5 :: int]
      \<le> 10 * length (filter (\<lambda>d. d \<le> P90_Estimator_compute
            \<lparr>p90_capacity = 1000, p90_samples = [7, 3, 5]\<rparr>) [7, 3, 5])"
  using P90_compute_rank [of "\<lparr>p90_capacity = 1000, p90_samples = [7, 3, 5]\<rparr>"]
  by (simp add: P90_Estimator_compute_def P90_index_def)

lemma P90_compute_pos:
  assumes "P90_inv e" "p90_samples e \<noteq> []" "length (p90_samples e) < 2 ^ 60"
  shows "0 < P90_Estimator_compute e"
proof -
  have i: "(9 * length (p90_samples e) + 9) div 10 - 1 < length (sort (p90_samples e))"
    using P90_index_unat(2) [of "length (p90_samples e)"] assms(2,3) by simp
  have "P90_Estimator_compute e \<in> set (p90_samples e)"
    using nth_mem [OF i] by (simp only: P90_compute_sort [OF assms(2,3)] set_sort)
  then show ?thesis using assms(1) by (simp add: P90_inv_def)
qed

end
