(* ===== verification/Wait_Status.thy ===== *)
theory Wait_Status
  imports Prelude
begin

text \<open>
  The status macros of \<^verbatim>\<open><sys/wait.h>\<close> that the process code applies to an \<open>int\<close>:
  the low seven bits hold the terminating signal, 0 for a normal exit and \<open>0x7f\<close> for a stopped
  process; the next byte holds the exit code.
\<close>

unbundle bit_operations_syntax

definition WTERMSIG :: "32 word \<Rightarrow> 32 word" where
  "WTERMSIG st = st AND 0x7f"

definition WIFEXITED :: "32 word \<Rightarrow> bool" where
  "WIFEXITED st \<longleftrightarrow> WTERMSIG st = 0"

definition WIFSTOPPED :: "32 word \<Rightarrow> bool" where
  "WIFSTOPPED st \<longleftrightarrow> st AND 0xff = 0x7f"

text \<open>\<open>((signed char) ((st & 0x7f) + 1) >> 1) > 0\<close>: the cast makes \<open>0x80\<close> negative.\<close>

definition WIFSIGNALED :: "32 word \<Rightarrow> bool" where
  "WIFSIGNALED st \<longleftrightarrow> 0 < sint (signed_drop_bit 1 (ucast (WTERMSIG st + 1) :: 8 word))"

lemma WTERMSIG_bound: "unat (WTERMSIG st) < 128"
proof -
  have "WTERMSIG st \<le> 0x7f" unfolding WTERMSIG_def by (rule word_and_le1)
  then show ?thesis by (simp add: word_le_nat_alt)
qed

text \<open>Case distinction on the seven signal bits: exited, signalled, or neither (stopped).\<close>

lemma signal_bits_table:
  "list_all (\<lambda>n. (0 < sint (signed_drop_bit 1 (ucast (word_of_nat n + 1 :: 32 word) :: 8 word)))
       = (n \<noteq> 0 \<and> n \<noteq> 127)) [0..<128]"
  by code_simp

lemma WIFSIGNALED_iff: "WIFSIGNALED st \<longleftrightarrow> WTERMSIG st \<noteq> 0 \<and> WTERMSIG st \<noteq> 0x7f"
proof -
  define n where "n = unat (WTERMSIG st)"
  have n: "n < 128" unfolding n_def by (rule WTERMSIG_bound)
  have t: "WTERMSIG st = word_of_nat n" by (simp add: n_def)
  have "n \<in> set [0..<128]" using n by (simp only: set_upt atLeastLessThan_iff le0 simp_thms)
  then have "(0 < sint (signed_drop_bit 1 (ucast (word_of_nat n + 1 :: 32 word) :: 8 word)))
      = (n \<noteq> 0 \<and> n \<noteq> 127)"
    by (rule signal_bits_table [unfolded list_all_iff, THEN bspec])
  then have "WIFSIGNALED st \<longleftrightarrow> n \<noteq> 0 \<and> n \<noteq> 127"
    by (simp only: WIFSIGNALED_def t)
  also have "\<dots> \<longleftrightarrow> WTERMSIG st \<noteq> 0 \<and> WTERMSIG st \<noteq> 0x7f"
    unfolding n_def using word_unat_eq_iff [of "WTERMSIG st" "0x7f"]
    by (simp add: unat_eq_zero)
  finally show ?thesis .
qed

lemma exited_not_signaled: "WIFEXITED st \<Longrightarrow> \<not> WIFSIGNALED st"
  by (simp add: WIFEXITED_def WIFSIGNALED_iff)

end
