(* ===== verification/Process_Handler.thy ===== *)
theory Process_Handler
  imports Aps_Job Wait_Status
begin

text \<open>
  \<^verbatim>\<open>process/process_handler.cpp\<close>: one child process with its pipes and callbacks.
  Boost.Process and the system calls are not part of the repository: they are the fields of the
  record \<open>process_api\<close>, an argument of every operation that calls them. \<open>'c\<close> is the type of
  \<open>bp::child\<close> handles, \<open>'w\<close> the state of everything outside the program, \<open>'l\<close> and
  \<open>'x\<close> the types of line and exit callbacks. A null \<open>unique_ptr\<close> or an empty
  \<open>std::function\<close> is \<open>None\<close> (or \<open>False\<close> for a pipe, of which only presence matters). A
  dereference of a null pointer is \<open>Inl Null_Deref\<close>.
\<close>

section \<open>Environment and state\<close>

text \<open>
  \<open>api_child opts piped cb w\<close> is the constructor of \<open>bp::child\<close> (\<open>None\<close>: it throws),
  \<open>piped\<close> telling whether standard input is a pipe or the null device; \<open>api_waitpid\<close> returns
  the status word that \<open>::waitpid(pid, &status, WUNTRACED)\<close> leaves.
\<close>

record ('c, 'x, 'w) process_api =
  api_child :: "Process_Options \<Rightarrow> bool \<Rightarrow> 'x option \<Rightarrow> 'w \<Rightarrow> 'c option \<times> 'w"
  api_id :: "'c \<Rightarrow> pid_t"
  api_running :: "'c \<Rightarrow> 'w \<Rightarrow> bool \<times> 'w"
  api_wait :: "'c \<Rightarrow> 'w \<Rightarrow> 'w"
  api_terminate :: "'c \<Rightarrow> 'w \<Rightarrow> 'w"
  api_exit_code :: "'c \<Rightarrow> 'w \<Rightarrow> int"
  api_kill :: "pid_t \<Rightarrow> int \<Rightarrow> 'w \<Rightarrow> int \<times> 'w"
  api_waitpid :: "pid_t \<Rightarrow> 'w \<Rightarrow> 32 word \<times> 'w"

datatype Stream = STDOUT | STDERR

text \<open>
  \<open>h_reads\<close> lists the outstanding \<open>async_read_until\<close> operations with the line callback each
  completion handler captured.
\<close>

record ('c, 'l, 'x) Process_Handler =
  h_ioc :: bool
  h_proc :: "'c option"
  h_stdin :: bool
  h_stdout :: bool
  h_stderr :: bool
  h_stdout_buf :: string
  h_stderr_buf :: string
  h_stdout_cb :: "'l option"
  h_stderr_cb :: "'l option"
  h_exit_cb :: "'x option"
  h_reads :: "(Stream \<times> 'l option) list"

definition SIGSTOP :: int where "SIGSTOP = 19"
definition SIGCONT :: int where "SIGCONT = 18"

section \<open>Operations\<close>

definition Process_Handler_new :: "bool \<Rightarrow> ('c, 'l, 'x) Process_Handler" where
  "Process_Handler_new ioc =
     \<lparr>h_ioc = ioc, h_proc = None, h_stdin = False, h_stdout = False, h_stderr = False,
      h_stdout_buf = [], h_stderr_buf = [], h_stdout_cb = None, h_stderr_cb = None,
      h_exit_cb = None, h_reads = []\<rparr>"

definition Process_Handler_pid ::
  "('c, 'x, 'w) process_api \<Rightarrow> ('c, 'l, 'x) Process_Handler \<Rightarrow> pid_t" where
  "Process_Handler_pid api h = (case h_proc h of Some c \<Rightarrow> api_id api c | None \<Rightarrow> - 1)"

definition Process_Handler_stdout_callback ::
  "'l option \<Rightarrow> ('c, 'l, 'x) Process_Handler \<Rightarrow> ('c, 'l, 'x) Process_Handler" where
  "Process_Handler_stdout_callback cb h = h\<lparr>h_stdout_cb := cb\<rparr>"

definition Process_Handler_stderr_callback ::
  "'l option \<Rightarrow> ('c, 'l, 'x) Process_Handler \<Rightarrow> ('c, 'l, 'x) Process_Handler" where
  "Process_Handler_stderr_callback cb h = h\<lparr>h_stderr_cb := cb\<rparr>"

definition Process_Handler_exit_callback ::
  "'x option \<Rightarrow> ('c, 'l, 'x) Process_Handler \<Rightarrow> ('c, 'l, 'x) Process_Handler" where
  "Process_Handler_exit_callback cb h = h\<lparr>h_exit_cb := cb\<rparr>"

text \<open>The members of one of the two streams.\<close>

fun h_open :: "Stream \<Rightarrow> ('c, 'l, 'x) Process_Handler \<Rightarrow> bool" where
  "h_open STDOUT h = h_stdout h"
| "h_open STDERR h = h_stderr h"

fun h_buf :: "Stream \<Rightarrow> ('c, 'l, 'x) Process_Handler \<Rightarrow> string" where
  "h_buf STDOUT h = h_stdout_buf h"
| "h_buf STDERR h = h_stderr_buf h"

fun h_cb :: "Stream \<Rightarrow> ('c, 'l, 'x) Process_Handler \<Rightarrow> 'l option" where
  "h_cb STDOUT h = h_stdout_cb h"
| "h_cb STDERR h = h_stderr_cb h"

fun h_set_buf :: "Stream \<Rightarrow> string \<Rightarrow> ('c, 'l, 'x) Process_Handler \<Rightarrow> ('c, 'l, 'x) Process_Handler" where
  "h_set_buf STDOUT b h = h\<lparr>h_stdout_buf := b\<rparr>"
| "h_set_buf STDERR b h = h\<lparr>h_stderr_buf := b\<rparr>"

text \<open>\<open>handle_stream\<close> starts one asynchronous read, unless the pipe is null.\<close>

definition Process_Handler_handle_stream ::
  "Stream \<Rightarrow> 'l option \<Rightarrow> ('c, 'l, 'x) Process_Handler \<Rightarrow> ('c, 'l, 'x) Process_Handler" where
  "Process_Handler_handle_stream st each_line h =
     (if \<not> h_open st h then h else h\<lparr>h_reads := h_reads h @ [(st, each_line)]\<rparr>)"

definition Process_Handler_handle_stdout ::
  "('c, 'l, 'x) Process_Handler \<Rightarrow> ('c, 'l, 'x) Process_Handler" where
  "Process_Handler_handle_stdout h =
     (if \<not> h_stdout h \<or> h_stdout_cb h = None then h
      else Process_Handler_handle_stream STDOUT (h_stdout_cb h) h)"

definition Process_Handler_handle_stderr ::
  "('c, 'l, 'x) Process_Handler \<Rightarrow> ('c, 'l, 'x) Process_Handler" where
  "Process_Handler_handle_stderr h =
     (if \<not> h_stderr h \<or> h_stderr_cb h = None then h
      else Process_Handler_handle_stream STDERR (h_stderr_cb h) h)"

text \<open>The argument \<open>after_line\<close> that the two callers of \<open>handle_stream\<close> pass.\<close>

fun after_line :: "Stream \<Rightarrow> ('c, 'l, 'x) Process_Handler \<Rightarrow> ('c, 'l, 'x) Process_Handler" where
  "after_line STDOUT h = Process_Handler_handle_stdout h"
| "after_line STDERR h = Process_Handler_handle_stderr h"

text \<open>
  The completion handler of a read. It does not look at the error code \<open>ec\<close>. The callback, when
  there is one, is handed a pointer to the start of the stream buffer and \<open>len - 1\<close>, computed on
  \<open>size_t\<close>; the returned triple records that call with the buffer contents behind the pointer.
\<close>

definition Process_Handler_on_read ::
  "Stream \<Rightarrow> 'l option \<Rightarrow> bool \<Rightarrow> size_t \<Rightarrow> ('c, 'l, 'x) Process_Handler \<Rightarrow>
   ('l \<times> string \<times> size_t) option \<times> ('c, 'l, 'x) Process_Handler" where
  "Process_Handler_on_read st each_line ec len h =
     (let h = h\<lparr>h_reads := remove1 (st, each_line) (h_reads h)\<rparr>;
          call = map_option (\<lambda>cb. (cb, h_buf st h, len - 1)) each_line;
          h = h_set_buf st (drop (unat len) (h_buf st h)) h
      in (call, after_line st h))"

definition Process_Handler_spawn ::
  "('c, 'x, 'w) process_api \<Rightarrow> Process_Options \<Rightarrow> ('c, 'l, 'x) Process_Handler \<Rightarrow> 'w \<Rightarrow>
   Undefined + (pid_t \<times> ('c, 'l, 'x) Process_Handler \<times> 'w)" where
  "Process_Handler_spawn api opts h w =
     (if \<not> h_ioc h then Inl Null_Deref
      else
        let h1 = h\<lparr>h_stdin := True, h_stdout := True, h_stderr := True\<rparr>;
            (child, w1) = api_child api opts (interactive opts) (h_exit_cb h) w
        in case child of
             None \<Rightarrow> Inr (- 1, h1\<lparr>h_proc := None\<rparr>, w1)
           | Some c \<Rightarrow>
               Inr (api_id api c,
                    Process_Handler_handle_stderr
                      (Process_Handler_handle_stdout (h1\<lparr>h_proc := Some c\<rparr>)), w1))"

definition Process_Handler_suspend ::
  "('c, 'x, 'w) process_api \<Rightarrow> ('c, 'l, 'x) Process_Handler \<Rightarrow> 'w \<Rightarrow> bool \<times> 'w" where
  "Process_Handler_suspend api h w =
     (case h_proc h of None \<Rightarrow> (False, w)
      | Some c \<Rightarrow>
          let (r, w1) = api_running api c w
          in if \<not> r then (False, w1)
             else let (rc, w2) = api_kill api (api_id api c) SIGSTOP w1 in (rc = 0, w2))"

definition Process_Handler_suspended ::
  "('c, 'x, 'w) process_api \<Rightarrow> ('c, 'l, 'x) Process_Handler \<Rightarrow> 'w \<Rightarrow> Undefined + (bool \<times> 'w)" where
  "Process_Handler_suspended api h w =
     (case h_proc h of None \<Rightarrow> Inl Null_Deref
      | Some c \<Rightarrow> let (st, w1) = api_waitpid api (api_id api c) w in Inr (WIFSTOPPED st, w1))"

definition Process_Handler_resume ::
  "('c, 'x, 'w) process_api \<Rightarrow> ('c, 'l, 'x) Process_Handler \<Rightarrow> 'w \<Rightarrow> Undefined + (bool \<times> 'w)" where
  "Process_Handler_resume api h w =
     (case h_proc h of None \<Rightarrow> Inr (False, w)
      | Some c \<Rightarrow>
          let (r, w1) = api_running api c w
          in if \<not> r then Inr (False, w1)
             else and_then (Process_Handler_suspended api h w1) (\<lambda>(stopped, w2).
                    if \<not> stopped then Inr (False, w2)
                    else let (rc, w3) = api_kill api (api_id api c) SIGCONT w2
                         in Inr (rc = 0, w3)))"

definition Process_Handler_wait ::
  "('c, 'x, 'w) process_api \<Rightarrow> ('c, 'l, 'x) Process_Handler \<Rightarrow> 'w \<Rightarrow> 'w" where
  "Process_Handler_wait api h w = (case h_proc h of None \<Rightarrow> w | Some c \<Rightarrow> api_wait api c w)"

definition Process_Handler_terminate ::
  "('c, 'x, 'w) process_api \<Rightarrow> ('c, 'l, 'x) Process_Handler \<Rightarrow> 'w \<Rightarrow>
   Undefined + (('c, 'l, 'x) Process_Handler \<times> 'w)" where
  "Process_Handler_terminate api h w =
     (let h1 = h\<lparr>h_stdout_cb := None, h_stderr_cb := None, h_stdout := False,
                 h_stderr := False, h_stdin := False\<rparr>
      in case h_proc h of None \<Rightarrow> Inl Null_Deref
         | Some c \<Rightarrow>
             let (r, w1) = api_running api c w;
                 w2 = (if r then api_terminate api c w1 else w1)
             in Inr (h1, api_wait api c w2))"

definition Process_Handler_exit_code ::
  "('c, 'x, 'w) process_api \<Rightarrow> ('c, 'l, 'x) Process_Handler \<Rightarrow> 'w \<Rightarrow> int" where
  "Process_Handler_exit_code api h w =
     (case h_proc h of None \<Rightarrow> - 1 | Some c \<Rightarrow> api_exit_code api c w)"

text \<open>
  The destructor calls \<open>terminate\<close> only behind its own null check; \<open>dtor_defined\<close> below shows
  the \<open>Inl\<close> branch is never taken.
\<close>

definition Process_Handler_dtor ::
  "('c, 'x, 'w) process_api \<Rightarrow> ('c, 'l, 'x) Process_Handler \<Rightarrow> 'w \<Rightarrow> Undefined + 'w" where
  "Process_Handler_dtor api h w =
     (case h_proc h of None \<Rightarrow> Inr w
      | Some c \<Rightarrow>
          let (r, w1) = api_running api c w
          in if r then and_then (Process_Handler_terminate api h w1) (\<lambda>(_, w2). Inr w2)
             else Inr w1)"

text \<open>The bytes written to the child's standard input are the second component.\<close>

definition Process_Handler_write_stdin ::
  "string \<Rightarrow> ('c, 'l, 'x) Process_Handler \<Rightarrow> int \<times> string" where
  "Process_Handler_write_stdin data h =
     (if \<not> h_stdin h then (- 1, []) else (int (length data), data))"

definition Process_Handler_close_stdin ::
  "('c, 'l, 'x) Process_Handler \<Rightarrow> ('c, 'l, 'x) Process_Handler" where
  "Process_Handler_close_stdin h = (if h_stdin h then h\<lparr>h_stdin := False\<rparr> else h)"

lemmas Process_Handler_stream_defs = Process_Handler_handle_stdout_def
  Process_Handler_handle_stderr_def Process_Handler_handle_stream_def

section \<open>Properties\<close>

lemma handle_streams_proc [simp]:
  "h_proc (Process_Handler_handle_stdout h) = h_proc h"
  "h_proc (Process_Handler_handle_stderr h) = h_proc h"
  by (simp_all add: Process_Handler_stream_defs split: option.splits)

lemma spawn_proc:
  "Process_Handler_spawn api opts h w = Inr (pid, h', w') \<Longrightarrow>
   (h_proc h' = None \<and> pid = - 1) \<or> (\<exists>c. h_proc h' = Some c \<and> pid = api_id api c)"
  by (auto simp: Process_Handler_spawn_def Let_def split: if_splits prod.splits option.splits)

lemma spawn_defined:
  assumes "h_ioc h"
  obtains pid h' w' where "Process_Handler_spawn api opts h w = Inr (pid, h', w')"
proof (cases "api_child api opts (interactive opts) (h_exit_cb h) w")
  case (Pair child w1)
  then show thesis using assms that by (cases child) (auto simp: Process_Handler_spawn_def)
qed

lemma dtor_defined: "\<exists>w'. Process_Handler_dtor api h w = Inr w'"
  by (auto simp: Process_Handler_dtor_def Process_Handler_terminate_def Let_def
      split: option.splits prod.splits)

lemma terminate_defined_iff:
  "(\<exists>r. Process_Handler_terminate api h w = Inr r) \<longleftrightarrow> h_proc h \<noteq> None"
  by (auto simp: Process_Handler_terminate_def Let_def split: option.splits prod.splits)

lemma terminate_keeps_proc:
  "Process_Handler_terminate api h w = Inr (h', w') \<Longrightarrow> h_proc h' = h_proc h"
  by (auto simp: Process_Handler_terminate_def Let_def split: option.splits prod.splits)

text \<open>After \<open>terminate\<close> no read is ever started again on this handler.\<close>

lemma terminate_no_rearm:
  "Process_Handler_terminate api h w = Inr (h', w') \<Longrightarrow>
   Process_Handler_handle_stdout h' = h' \<and> Process_Handler_handle_stderr h' = h'"
  by (auto simp: Process_Handler_terminate_def Process_Handler_stream_defs Let_def
      split: option.splits prod.splits)

lemma stream_simps [simp]:
  "h_open st (h\<lparr>h_reads := rs\<rparr>) = h_open st h"
  "h_cb st (h\<lparr>h_reads := rs\<rparr>) = h_cb st h"
  "h_buf st (h\<lparr>h_reads := rs\<rparr>) = h_buf st h"
  "h_open st (h_set_buf st' b h) = h_open st h"
  "h_cb st (h_set_buf st' b h) = h_cb st h"
  "h_reads (h_set_buf st b h) = h_reads h"
  "h_buf st (h_set_buf st b h) = b"
  "h_set_buf st b (h\<lparr>h_reads := rs\<rparr>) = (h_set_buf st b h)\<lparr>h_reads := rs\<rparr>"
  "h_set_buf st (h_buf st h) h = h"
  by (cases st; cases st'; simp)+

lemma after_line_eq:
  "after_line st h =
     (if h_open st h \<and> h_cb st h \<noteq> None then h\<lparr>h_reads := h_reads h @ [(st, h_cb st h)]\<rparr> else h)"
  by (cases st) (simp_all add: Process_Handler_stream_defs)

text \<open>
  A completed read on an open stream whose callback is still set: the callback is called with the
  start of the buffer, the reported length is consumed and the next read is started.
\<close>

lemma on_read_eq:
  assumes "h_open st h" "h_cb st h = Some cb"
  shows "Process_Handler_on_read st (Some cb) ec len h =
    (Some (cb, h_buf st h, len - 1),
     (h_set_buf st (drop (unat len) (h_buf st h)) h)
       \<lparr>h_reads := remove1 (st, Some cb) (h_reads h) @ [(st, Some cb)]\<rparr>)"
  using assms by (simp add: Process_Handler_on_read_def after_line_eq Let_def)

end
