(* ===== verification/Process_Manager.thy ===== *)
theory Process_Manager
  imports Process_Handler
begin

text \<open>
  \<^verbatim>\<open>process/process_manager.cpp\<close>: the singleton that owns the handlers of the child
  processes, a map from process identifier to handler behind a mutex. Erasing an entry runs the
  destructor of its handler. Whether \<open>std::map::emplace\<close> constructs the new element before it
  finds the key taken is not specified by the standard; the flag \<open>eager\<close> covers both: an eager
  \<open>emplace\<close> constructs the owning pointer and destroys it (and the handler) again, the other
  leaves the raw pointer alone and the handler is leaked.
\<close>

record ('c, 'l, 'x) Process_Manager =
  pm_ioc :: bool
  pm_handlers :: "pid_t \<rightharpoonup> ('c, 'l, 'x) Process_Handler"

definition Process_Manager_initial :: "('c, 'l, 'x) Process_Manager" where
  "Process_Manager_initial = \<lparr>pm_ioc = False, pm_handlers = Map.empty\<rparr>"

definition Process_Manager_open ::
  "bool \<Rightarrow> ('c, 'l, 'x) Process_Manager \<Rightarrow> bool \<times> ('c, 'l, 'x) Process_Manager" where
  "Process_Manager_open ioc m = (True, m\<lparr>pm_ioc := ioc\<rparr>)"

definition Process_Manager_find_handler ::
  "pid_t \<Rightarrow> ('c, 'l, 'x) Process_Manager \<Rightarrow> ('c, 'l, 'x) Process_Handler option" where
  "Process_Manager_find_handler pid m = pm_handlers m pid"

definition Process_Manager_remove_handler ::
  "('c, 'x, 'w) process_api \<Rightarrow> pid_t \<Rightarrow> ('c, 'l, 'x) Process_Manager \<Rightarrow> 'w \<Rightarrow>
   Undefined + (('c, 'l, 'x) Process_Manager \<times> 'w)" where
  "Process_Manager_remove_handler api pid m w =
     (case pm_handlers m pid of None \<Rightarrow> Inr (m, w)
      | Some h \<Rightarrow> and_then (Process_Handler_dtor api h w)
          (\<lambda>w'. Inr (m\<lparr>pm_handlers := (pm_handlers m)(pid := None)\<rparr>, w')))"

text \<open>The handler as \<open>spawn\<close> prepares it before it starts the child.\<close>

definition Process_Manager_make_handler ::
  "'l option \<Rightarrow> 'l option \<Rightarrow> 'x option \<Rightarrow> ('c, 'l, 'x) Process_Manager \<Rightarrow>
   ('c, 'l, 'x) Process_Handler" where
  "Process_Manager_make_handler stdout_cb stderr_cb exit_cb m =
     (let h = Process_Handler_new (pm_ioc m);
          h = (if stdout_cb \<noteq> None then Process_Handler_stdout_callback stdout_cb h else h);
          h = (if stderr_cb \<noteq> None then Process_Handler_stderr_callback stderr_cb h else h)
      in if exit_cb \<noteq> None then Process_Handler_exit_callback exit_cb h else h)"

definition Process_Manager_spawn ::
  "('c, 'x, 'w) process_api \<Rightarrow> bool \<Rightarrow> Process_Options \<Rightarrow> 'l option \<Rightarrow> 'l option \<Rightarrow> 'x option \<Rightarrow>
   ('c, 'l, 'x) Process_Manager \<Rightarrow> 'w \<Rightarrow>
   Undefined + (pid_t \<times> ('c, 'l, 'x) Process_Manager \<times> 'w)" where
  "Process_Manager_spawn api eager opts stdout_cb stderr_cb exit_cb m w =
     and_then
       (Process_Handler_spawn api opts
          (Process_Manager_make_handler stdout_cb stderr_cb exit_cb m) w)
       (\<lambda>(pid, h, w1).
          if pid = - 1 then
            and_then (Process_Handler_dtor api h w1) (\<lambda>w2. Inr (pid, m, w2))
          else case pm_handlers m pid of
            None \<Rightarrow> Inr (pid, m\<lparr>pm_handlers := (pm_handlers m)(pid \<mapsto> h)\<rparr>, w1)
          | Some _ \<Rightarrow>
              if eager
              then and_then (Process_Handler_dtor api h w1) (\<lambda>w2. Inr (pid, m, w2))
              else Inr (pid, m, w1))"

definition Process_Manager_wait ::
  "('c, 'x, 'w) process_api \<Rightarrow> pid_t \<Rightarrow> ('c, 'l, 'x) Process_Manager \<Rightarrow> 'w \<Rightarrow>
   Undefined + (int \<times> ('c, 'l, 'x) Process_Manager \<times> 'w)" where
  "Process_Manager_wait api pid m w =
     (case Process_Manager_find_handler pid m of None \<Rightarrow> Inr (- 1, m, w)
      | Some h \<Rightarrow>
          let w1 = Process_Handler_wait api h w;
              ec = Process_Handler_exit_code api h w1
          in and_then (Process_Manager_remove_handler api pid m w1)
               (\<lambda>(m', w2). Inr (ec, m', w2)))"

text \<open>
  \<open>h->terminate()\<close> updates the handler in place before \<open>remove_handler\<close> destroys it.
\<close>

definition Process_Manager_terminate ::
  "('c, 'x, 'w) process_api \<Rightarrow> pid_t \<Rightarrow> ('c, 'l, 'x) Process_Manager \<Rightarrow> 'w \<Rightarrow>
   Undefined + (('c, 'l, 'x) Process_Manager \<times> 'w)" where
  "Process_Manager_terminate api pid m w =
     (case Process_Manager_find_handler pid m of
        None \<Rightarrow> Process_Manager_remove_handler api pid m w
      | Some h \<Rightarrow>
          and_then (Process_Handler_terminate api h w) (\<lambda>(h', w1).
            Process_Manager_remove_handler api pid
              (m\<lparr>pm_handlers := (pm_handlers m)(pid \<mapsto> h')\<rparr>) w1))"

text \<open>\<open>Process_Killer::terminate_with_children\<close> is an empty stub in the sources.\<close>

definition Process_Manager_terminate_with_children ::
  "('c, 'x, 'w) process_api \<Rightarrow> pid_t \<Rightarrow> ('c, 'l, 'x) Process_Manager \<Rightarrow> 'w \<Rightarrow>
   Undefined + (('c, 'l, 'x) Process_Manager \<times> 'w)" where
  "Process_Manager_terminate_with_children api pid m w =
     Process_Manager_remove_handler api pid m w"

section \<open>The ownership invariant\<close>

text \<open>Every owned handler has a child process, filed under that child's identifier.\<close>

definition PM_inv :: "('c, 'x, 'w) process_api \<Rightarrow> ('c, 'l, 'x) Process_Manager \<Rightarrow> bool" where
  "PM_inv api m \<longleftrightarrow> finite (dom (pm_handlers m)) \<and>
     (\<forall>pid h. pm_handlers m pid = Some h \<longrightarrow> (\<exists>c. h_proc h = Some c \<and> api_id api c = pid))"

lemma PM_initial_inv: "PM_inv api Process_Manager_initial"
  by (simp add: PM_inv_def Process_Manager_initial_def)

lemma PM_open_inv [inv_rules]:
  "PM_inv api m \<Longrightarrow> Process_Manager_open ioc m = (b, m') \<Longrightarrow> PM_inv api m'"
  by (auto simp: PM_inv_def Process_Manager_open_def)

lemma remove_handler_defined:
  "\<exists>w'. Process_Manager_remove_handler api pid m w =
     Inr (m\<lparr>pm_handlers := (pm_handlers m)(pid := None)\<rparr>, w')"
proof (cases "pm_handlers m pid")
  case None
  then have "(pm_handlers m)(pid := None) = pm_handlers m" by auto
  with None show ?thesis by (simp add: Process_Manager_remove_handler_def)
next
  case (Some h)
  then show ?thesis
    using dtor_defined [of api h w] by (auto simp: Process_Manager_remove_handler_def)
qed

lemma PM_inv_erase: "PM_inv api m \<Longrightarrow> PM_inv api (m\<lparr>pm_handlers := (pm_handlers m)(pid := None)\<rparr>)"
  by (auto simp: PM_inv_def)

lemma make_handler_ioc [simp]:
  "h_ioc (Process_Manager_make_handler so se ex m) = pm_ioc m"
  by (simp add: Process_Manager_make_handler_def Process_Handler_new_def Let_def
      Process_Handler_stdout_callback_def Process_Handler_stderr_callback_def
      Process_Handler_exit_callback_def)

text \<open>What a call of \<open>spawn\<close> can do to the handler map.\<close>

lemma PM_spawn_cases:
  assumes "Process_Manager_spawn api eager opts so se ex m w = Inr (pid, m', w')"
  obtains (failed) "pid = - 1" "m' = m"
  | (taken) h0 where "pm_handlers m pid = Some h0" "m' = m"
  | (added) h c where "pm_handlers m pid = None" "h_proc h = Some c" "api_id api c = pid"
      "m' = m\<lparr>pm_handlers := (pm_handlers m)(pid \<mapsto> h)\<rparr>"
proof -
  let ?h0 = "Process_Manager_make_handler so se ex m"
  obtain p h w1 where sp: "Process_Handler_spawn api opts ?h0 w = Inr (p, h, w1)"
    using assms by (auto simp: Process_Manager_spawn_def and_then_Inr)
  note eq = assms [unfolded Process_Manager_spawn_def sp and_then_simps prod.case]
  show thesis
  proof (cases "p = - 1")
    case True
    with eq show thesis by (auto simp: and_then_Inr intro: failed)
  next
    case np: False
    then obtain c where c: "h_proc h = Some c" "p = api_id api c"
      using spawn_proc [OF sp] by auto
    show thesis
    proof (cases "pm_handlers m p")
      case None
      with eq np c show thesis by (auto intro: added)
    next
      case (Some h1)
      with eq np show thesis by (auto simp: and_then_Inr split: if_splits intro: taken)
    qed
  qed
qed

lemma PM_spawn_inv [inv_rules]:
  assumes "PM_inv api m"
    and "Process_Manager_spawn api eager opts so se ex m w = Inr (pid, m', w')"
  shows "PM_inv api m'"
  using assms(2)
proof (cases rule: PM_spawn_cases)
  case (added h c)
  then show ?thesis using assms(1) by (auto simp: PM_inv_def)
qed (use assms(1) in auto)

lemma PM_spawn_ioc:
  "Process_Manager_spawn api eager opts so se ex m w = Inr (pid, m', w') \<Longrightarrow> pm_ioc m' = pm_ioc m"
  by (erule PM_spawn_cases) auto

lemma PM_spawn_defined:
  assumes "pm_ioc m"
  shows "\<exists>r. Process_Manager_spawn api eager opts so se ex m w = Inr r"
proof -
  obtain pid h w1 where "Process_Handler_spawn api opts
      (Process_Manager_make_handler so se ex m) w = Inr (pid, h, w1)"
    using assms by (auto elim: spawn_defined [rotated])
  then show ?thesis
    using dtor_defined [of api h w1]
    by (auto simp: Process_Manager_spawn_def split: option.splits)
qed

lemma PM_terminate_defined:
  assumes "PM_inv api m"
  shows "\<exists>w'. Process_Manager_terminate api pid m w =
    Inr (m\<lparr>pm_handlers := (pm_handlers m)(pid := None)\<rparr>, w')"
proof (cases "pm_handlers m pid")
  case None
  then show ?thesis
    using remove_handler_defined [of api pid m w]
    by (simp add: Process_Manager_terminate_def Process_Manager_find_handler_def)
next
  case (Some h)
  then have "h_proc h \<noteq> None" using assms by (auto simp: PM_inv_def)
  then obtain h' w1 where "Process_Handler_terminate api h w = Inr (h', w1)"
    using terminate_defined_iff [of api h w] by auto
  then show ?thesis
    using Some remove_handler_defined [of api pid "m\<lparr>pm_handlers := (pm_handlers m)(pid \<mapsto> h')\<rparr>" w1]
    by (simp add: Process_Manager_terminate_def Process_Manager_find_handler_def)
qed

lemma PM_wait_defined:
  "\<exists>ec w'. Process_Manager_wait api pid m w =
     Inr (ec, m\<lparr>pm_handlers := (pm_handlers m)(pid := None)\<rparr>, w')"
proof (cases "pm_handlers m pid")
  case None
  then have "(pm_handlers m)(pid := None) = pm_handlers m" by auto
  with None show ?thesis
    by (simp add: Process_Manager_wait_def Process_Manager_find_handler_def)
next
  case (Some h)
  then show ?thesis
    using remove_handler_defined [of api pid m "Process_Handler_wait api h w"]
    by (auto simp: Process_Manager_wait_def Process_Manager_find_handler_def Let_def)
qed

section \<open>All uses of the manager\<close>

text \<open>
  Any sequence of calls, each run to its end before the next, interleaved with arbitrary changes of
  the outside world. Theory \<open>Process_Manager_Threads\<close> treats calls of several threads that overlap
  between the stretches the mutex protects.
\<close>

datatype ('l, 'x) PM_Event =
    PM_Open bool
  | PM_Spawn Process_Options "'l option" "'l option" "'x option"
  | PM_Wait pid_t
  | PM_Terminate pid_t
  | PM_Terminate_With_Children pid_t
  | PM_World

inductive pm_step ::
  "('c, 'x, 'w) process_api \<Rightarrow> bool \<Rightarrow> ('c, 'l, 'x) Process_Manager \<times> 'w \<Rightarrow> ('l, 'x) PM_Event \<Rightarrow>
   ('c, 'l, 'x) Process_Manager \<times> 'w \<Rightarrow> bool"
  for api :: "('c, 'x, 'w) process_api" and eager :: bool where
  pm_open: "Process_Manager_open ioc m = (b, m') \<Longrightarrow> pm_step api eager (m, w) (PM_Open ioc) (m', w)"
| pm_spawn: "Process_Manager_spawn api eager opts so se ex m w = Inr (pid, m', w') \<Longrightarrow>
     pm_step api eager (m, w) (PM_Spawn opts so se ex) (m', w')"
| pm_wait: "Process_Manager_wait api pid m w = Inr (ec, m', w') \<Longrightarrow>
     pm_step api eager (m, w) (PM_Wait pid) (m', w')"
| pm_terminate: "Process_Manager_terminate api pid m w = Inr (m', w') \<Longrightarrow>
     pm_step api eager (m, w) (PM_Terminate pid) (m', w')"
| pm_terminate_children:
    "Process_Manager_terminate_with_children api pid m w = Inr (m', w') \<Longrightarrow>
     pm_step api eager (m, w) (PM_Terminate_With_Children pid) (m', w')"
| pm_world: "pm_step api eager (m, w) PM_World (m, w')"

inductive_cases pm_stepE: "pm_step api eager s e t"

lemma PM_wait_inv [inv_rules]:
  "PM_inv api m \<Longrightarrow> Process_Manager_wait api pid m w = Inr (ec, m', w') \<Longrightarrow> PM_inv api m'"
  using PM_wait_defined [of api pid m w] by (auto intro: PM_inv_erase)

lemma PM_terminate_inv [inv_rules]:
  "PM_inv api m \<Longrightarrow> Process_Manager_terminate api pid m w = Inr (m', w') \<Longrightarrow> PM_inv api m'"
  using PM_terminate_defined [of api m pid w] by (auto intro: PM_inv_erase)

lemma PM_terminate_children_inv [inv_rules]:
  "PM_inv api m \<Longrightarrow> Process_Manager_terminate_with_children api pid m w = Inr (m', w') \<Longrightarrow>
   PM_inv api m'"
  using remove_handler_defined [of api pid m w]
  by (auto simp: Process_Manager_terminate_with_children_def intro: PM_inv_erase)

lemma pm_step_inv: "PM_inv api (fst s) \<Longrightarrow> pm_step api eager s e t \<Longrightarrow> PM_inv api (fst t)"
  by (erule pm_stepE) (auto intro: inv_rules)

interpretation pm_sys: invariant_system
  "\<lambda>s. fst s = Process_Manager_initial" "pm_step api eager" "\<lambda>s. PM_inv api (fst s)"
  for api eager
  by unfold_locales (auto simp: PM_initial_inv intro: pm_step_inv)

text \<open>
  After any sequence of manager calls, terminating or waiting for any process identifier
  never dereferences a null child pointer, and leaves exactly that identifier unowned.
\<close>

lemma PM_reachable_calls_defined:
  assumes "reach (\<lambda>s. fst s = Process_Manager_initial) (pm_step api eager) (m, w)"
  shows "(\<exists>w'. Process_Manager_terminate api pid m w =
            Inr (m\<lparr>pm_handlers := (pm_handlers m)(pid := None)\<rparr>, w'))
       \<and> (\<exists>ec w'. Process_Manager_wait api pid m w =
            Inr (ec, m\<lparr>pm_handlers := (pm_handlers m)(pid := None)\<rparr>, w'))"
proof -
  have "PM_inv api m" using pm_sys.reach_inv [OF assms] by simp
  then show ?thesis by (intro conjI PM_terminate_defined PM_wait_defined)
qed

text \<open>A small concrete environment: a child is a number, the world the list of living ones.\<close>

definition toy_api :: "(nat, 'x, nat list) process_api" where
  "toy_api =
     \<lparr>api_child = (\<lambda>opts piped cb w. if exe opts = [] then (None, w) else (Some 5, 5 # w)),
      api_id = int,
      api_running = (\<lambda>c w. (c \<in> set w, w)),
      api_wait = (\<lambda>c w. w),
      api_terminate = (\<lambda>c w. filter (\<lambda>d. d \<noteq> c) w),
      api_exit_code = (\<lambda>c w. 0),
      api_kill = (\<lambda>p s w. (0, w)),
      api_waitpid = (\<lambda>p w. (0, w))\<rparr>"

text \<open>
  C22: \<open>spawn\<close> when the operating system hands out an identifier that is still filed (the process
  it belonged to exited and nobody waited for it): the manager keeps the stale handler, the new
  one is not filed although its identifier is returned, and where \<open>emplace\<close> constructs eagerly
  the new child is terminated on the spot.
\<close>

theorem PM_spawn_pid_reused:
  assumes "pm_ioc m" and "pm_handlers m (api_id api c) = Some h0" and "api_id api c \<noteq> - 1"
    and "api_child api opts (interactive opts) ex w = (Some c, w1)"
    and "api_running api c w1 = (True, w2)" and "api_running api c w2 = (True, w3)"
  shows "Process_Manager_spawn api False opts so se ex m w = Inr (api_id api c, m, w1)
    \<and> Process_Manager_spawn api True opts so se ex m w =
        Inr (api_id api c, m, api_wait api c (api_terminate api c w3))"
proof -
  have ex: "h_exit_cb (Process_Manager_make_handler so se ex m) = ex"
    by (simp add: Process_Manager_make_handler_def Process_Handler_new_def Let_def
        Process_Handler_stdout_callback_def Process_Handler_stderr_callback_def
        Process_Handler_exit_callback_def)
  show ?thesis
    using assms ex
    by (simp add: Process_Manager_spawn_def Process_Handler_spawn_def Process_Handler_dtor_def
        Process_Handler_terminate_def Let_def)
qed

theorem PM_spawn_pid_reused_witness:
  "Process_Manager_spawn toy_api True (default_Process_Options\<lparr>exe := ''a''\<rparr>) None None (Some 1)
     \<lparr>pm_ioc = True, pm_handlers = [5 \<mapsto> (Process_Handler_new True :: (nat, nat, nat) Process_Handler)]\<rparr> [] =
   Inr (5, \<lparr>pm_ioc = True, pm_handlers = [5 \<mapsto> Process_Handler_new True]\<rparr>, [])"
  using PM_spawn_pid_reused [of
      "\<lparr>pm_ioc = True, pm_handlers = [5 \<mapsto> (Process_Handler_new True :: (nat, nat, nat) Process_Handler)]\<rparr>"
      toy_api 5 "Process_Handler_new True" "default_Process_Options\<lparr>exe := ''a''\<rparr>" "Some 1" "[]"
      "[5]" "[5]" "[5]" None None]
  by (simp add: toy_api_def default_Process_Options_def)

end
