(* ===== verification/Aps_Scheduler.thy ===== *)
theory Aps_Scheduler
  imports Complex_Main Aps_Pending_Queue Aps_Finished_Storage Aps_P90 Process_Manager
begin

text \<open>
  \<^verbatim>\<open>process/aps_scheduler.cpp\<close>: the asynchronous process scheduler. It moves jobs from the
  pending queue onto a bounded number of lanes, starts them through the process manager, records
  the ones that exit and kills and requeues the ones that outlive their timer. The model is the
  scheduler object together with the process manager singleton and the outside world; lane counters are
  \<open>size_t\<close> words, so their decrements could wrap. \<open>steady_clock::now()\<close> is the argument \<open>now\<close>.
  \<open>sch_loops\<close> counts the outstanding invocations of \<open>run_loop\<close> (posted or waiting on the
  one-second timer).
\<close>

section \<open>State\<close>

record Scheduler =
  sch_stop :: bool
  sch_loops :: nat
  sch_pq :: Pending_Q
  sch_storage :: Finished_Storage
  total_lane :: size_t
  fast_lane :: size_t
  slow_lane :: size_t
  running_fast :: size_t
  running_slow :: size_t
  default_timeout :: int
  p90_estimator :: P90_Estimator
  running :: "string \<rightharpoonup> Running_Job"

definition p90_min_samples :: size_t where "p90_min_samples = 15"
definition p90_multiplier :: rat where "p90_multiplier = 3 / 2"

type_synonym ('c, 'l, 'w) sched_state = "Scheduler \<times> ('c, 'l, string) Process_Manager \<times> 'w"

section \<open>Operations\<close>

definition start_job :: "Pending_Job \<Rightarrow> Lane \<Rightarrow> pid_t \<Rightarrow> int \<Rightarrow> int option \<Rightarrow> Running_Job" where
  "start_job pj actual_lane pid now timer =
     \<lparr>rj_spec = pj_spec pj, rj_lane = actual_lane, rj_pid = pid, rj_start_time = now,
      rj_timer = timer\<rparr>"

definition requeue_job :: "Running_Job \<Rightarrow> Pending_Job" where
  "requeue_job rj = \<lparr>pj_spec = rj_spec rj, pj_lane = SLOW\<rparr>"

definition finish_job :: "Running_Job \<Rightarrow> int \<Rightarrow> 32 word \<Rightarrow> Finished_Job" where
  "finish_job rj end_time exit_code =
     \<lparr>fj_spec = rj_spec rj, fj_start_time = rj_start_time rj, fj_end_time = end_time,
      fj_exit_code = exit_code\<rparr>"

text \<open>
  The constructor throws \<open>runtime_error("")\<close> on a null \<open>io_context\<close>, a null queue or storage,
  or fewer than four lanes.
\<close>

datatype Scheduler_Error = Runtime_Error string

definition Scheduler_new ::
  "bool \<Rightarrow> Pending_Q option \<Rightarrow> Finished_Storage option \<Rightarrow> size_t \<Rightarrow> Scheduler_Error + Scheduler" where
  "Scheduler_new ioc pq storage lane =
     (if \<not> ioc then Inl (Runtime_Error [])
      else case (pq, storage) of
        (Some q, Some st) \<Rightarrow>
          if lane < 4 then Inl (Runtime_Error [])
          else Inr \<lparr>sch_stop = False, sch_loops = 0, sch_pq = q, sch_storage = st,
                    total_lane = lane, fast_lane = lane div 4, slow_lane = lane - lane div 4,
                    running_fast = 0, running_slow = 0, default_timeout = 30,
                    p90_estimator = P90_Estimator_new P90_default_capacity,
                    running = Map.empty\<rparr>
      | _ \<Rightarrow> Inl (Runtime_Error []))"

definition Scheduler_run :: "Scheduler \<Rightarrow> Scheduler" where
  "Scheduler_run s = s\<lparr>sch_loops := Suc (sch_loops s)\<rparr>"

definition Scheduler_stop :: "Scheduler \<Rightarrow> Scheduler" where
  "Scheduler_stop s = s\<lparr>sch_stop := True\<rparr>"

text \<open>As written: every path of the \<open>SLOW\<close> case ends in \<open>return true\<close>.\<close>

definition Scheduler_schedulable :: "Pending_Job \<Rightarrow> Scheduler \<Rightarrow> bool" where
  "Scheduler_schedulable pj s =
     (if running_fast s + running_slow s \<ge> total_lane s then False
      else case pj_lane pj of
        FAST \<Rightarrow> True
      | SLOW \<Rightarrow> if running_slow s < slow_lane s then True
                else if running_fast s < fast_lane s div 2 then True
                else True)"

text \<open>
  The timeout in seconds. \<open>p90.count() * 1.5\<close> is exact in a \<open>double\<close> for every count below
  \<open>2 ^ 52\<close>, far beyond the \<open>2 ^ 63\<close> nanoseconds a steady clock can measure.
\<close>

definition Scheduler_compute_timeout :: "Scheduler \<Rightarrow> int" where
  "Scheduler_compute_timeout s =
     (if P90_Estimator_size (p90_estimator s) < p90_min_samples then default_timeout s
      else
        let p90 = P90_Estimator_compute (p90_estimator s)
        in if p90 = 0 then default_timeout s else \<lceil>rat_of_int p90 * p90_multiplier\<rceil>)"

text \<open>The lane the job is put on, with the counter already incremented.\<close>

definition Scheduler_take_lane :: "Pending_Job \<Rightarrow> Scheduler \<Rightarrow> Lane \<times> Scheduler" where
  "Scheduler_take_lane pj s =
     (case pj_lane pj of
        FAST \<Rightarrow> if running_fast s < fast_lane s
                then (FAST, s\<lparr>running_fast := running_fast s + 1\<rparr>)
                else (SLOW, s\<lparr>running_slow := running_slow s + 1\<rparr>)
      | SLOW \<Rightarrow> if running_slow s < slow_lane s
                then (SLOW, s\<lparr>running_slow := running_slow s + 1\<rparr>)
                else (FAST, s\<lparr>running_fast := running_fast s + 1\<rparr>))"

definition Scheduler_schedule ::
  "('c, string, 'w) process_api \<Rightarrow> bool \<Rightarrow> int \<Rightarrow> Pending_Job \<Rightarrow> ('c, 'l, 'w) sched_state \<Rightarrow>
   Undefined + ('c, 'l, 'w) sched_state" where
  "Scheduler_schedule api eager now pj st =
     (case st of (s, m, w) \<Rightarrow>
        let (actual_lane, s1) = Scheduler_take_lane pj s;
            i = job_id (pj_spec pj)
        in and_then
             (Process_Manager_spawn api eager (job_opts (pj_spec pj)) None None (Some i) m w)
             (\<lambda>(pid, m1, w1).
                let timer = (if actual_lane = FAST then Some (Scheduler_compute_timeout s1)
                             else None)
                in Inr (s1\<lparr>running := map_emplace i (start_job pj actual_lane pid now timer)
                                                  (running s1)\<rparr>, m1, w1)))"

definition Scheduler_run_loop ::
  "('c, string, 'w) process_api \<Rightarrow> bool \<Rightarrow> int \<Rightarrow> ('c, 'l, 'w) sched_state \<Rightarrow>
   Undefined + ('c, 'l, 'w) sched_state" where
  "Scheduler_run_loop api eager now st =
     (case st of (s, m, w) \<Rightarrow>
        if sch_stop s then Inr (s, m, w)
        else and_then
          (if Pending_Q_empty (sch_pq s) then Inr (s, m, w)
           else case Pending_Q_front (sch_pq s) of
             None \<Rightarrow> Inl Empty_Container
           | Some pj \<Rightarrow>
               if Scheduler_schedulable pj s then
                 (case Pending_Q_pop (sch_pq s) of
                    None \<Rightarrow> Inl Empty_Container
                  | Some (pj', q') \<Rightarrow>
                      Scheduler_schedule api eager now pj' (s\<lparr>sch_pq := q'\<rparr>, m, w))
               else Inr (s, m, w))
          (\<lambda>(s', m', w'). Inr (s'\<lparr>sch_loops := Suc (sch_loops s')\<rparr>, m', w')))"

text \<open>The wait before a loop iteration is over: one outstanding invocation is consumed.\<close>

definition Scheduler_tick ::
  "('c, string, 'w) process_api \<Rightarrow> bool \<Rightarrow> int \<Rightarrow> ('c, 'l, 'w) sched_state \<Rightarrow>
   Undefined + ('c, 'l, 'w) sched_state" where
  "Scheduler_tick api eager now st =
     (case st of (s, m, w) \<Rightarrow>
        Scheduler_run_loop api eager now (s\<lparr>sch_loops := sch_loops s - 1\<rparr>, m, w))"

definition Scheduler_free_lane :: "Lane \<Rightarrow> Scheduler \<Rightarrow> Scheduler" where
  "Scheduler_free_lane l s =
     (case l of FAST \<Rightarrow> s\<lparr>running_fast := running_fast s - 1\<rparr>
      | SLOW \<Rightarrow> s\<lparr>running_slow := running_slow s - 1\<rparr>)"

text \<open>\<open>duration_cast<seconds>\<close> of a nanosecond count truncates towards zero.\<close>

definition duration_cast_seconds :: "int \<Rightarrow> int" where
  "duration_cast_seconds ns = sgn ns * (\<bar>ns\<bar> div 1000000000)"

definition Scheduler_handle_exit ::
  "int \<Rightarrow> string \<Rightarrow> 32 word \<Rightarrow> Scheduler \<Rightarrow> Undefined + Scheduler" where
  "Scheduler_handle_exit now i exit_code s =
     (case running s i of
        None \<Rightarrow> Inr s
      | Some rj \<Rightarrow>
          and_then
            (if WIFEXITED exit_code then
               (case P90_Estimator_add (duration_cast_seconds (now - rj_start_time rj))
                       (p90_estimator s) of
                  None \<Rightarrow> Inl Empty_Container
                | Some e \<Rightarrow>
                    Inr (s\<lparr>sch_storage := Finished_Storage_store (finish_job rj now exit_code)
                                            (sch_storage s), p90_estimator := e\<rparr>))
             else Inr s)
            (\<lambda>s1. let s2 = Scheduler_free_lane (rj_lane rj) s1
                  in Inr (s2\<lparr>running := (running s2)(i := None)\<rparr>)))"

definition Scheduler_handle_timeout ::
  "('c, string, 'w) process_api \<Rightarrow> string \<Rightarrow> ('c, 'l, 'w) sched_state \<Rightarrow>
   Undefined + ('c, 'l, 'w) sched_state" where
  "Scheduler_handle_timeout api i st =
     (case st of (s, m, w) \<Rightarrow>
        case running s i of
          None \<Rightarrow> Inr (s, m, w)
        | Some rj \<Rightarrow>
            and_then (Process_Manager_terminate api (rj_pid rj) m w) (\<lambda>(m1, w1).
              let s1 = Scheduler_free_lane (rj_lane rj) s
              in Inr (s1\<lparr>sch_pq := Pending_Q_push (requeue_job rj) (sch_pq s1),
                        running := (running s1)(i := None)\<rparr>, m1, w1)))"

end
