(* ===== verification/Aps_Scheduler_Inv.thy ===== *)
theory Aps_Scheduler_Inv
  imports Aps_Scheduler
begin

text \<open>
  Invariants of the scheduler: lane capacities, the agreement between the lane counters and the
  table of running jobs, timers exactly on fast-lane jobs. Each operation gets its preservation
  lemma here; the system of all operations and its reachable states are in \<open>Aps_System\<close>.
\<close>

section \<open>Lanes\<close>

definition lanes_ok :: "Scheduler \<Rightarrow> bool" where
  "lanes_ok s \<longleftrightarrow> 4 \<le> unat (total_lane s) \<and> unat (fast_lane s) = unat (total_lane s) div 4 \<and>
     unat (slow_lane s) = unat (total_lane s) - unat (total_lane s) div 4"

definition within_lanes :: "Scheduler \<Rightarrow> bool" where
  "within_lanes s \<longleftrightarrow> unat (running_fast s) \<le> unat (fast_lane s) \<and>
     unat (running_slow s) \<le> unat (slow_lane s)"

lemma lanes_sum: "lanes_ok s \<Longrightarrow> unat (fast_lane s) + unat (slow_lane s) = unat (total_lane s)"
  by (simp add: lanes_ok_def)

lemma running_sum:
  assumes "lanes_ok s" "within_lanes s"
  shows "unat (running_fast s + running_slow s) = unat (running_fast s) + unat (running_slow s)"
proof (rule unat_add_if_small)
  have "unat (running_fast s) + unat (running_slow s) \<le> unat (total_lane s)"
    using assms lanes_sum [of s] by (simp add: within_lanes_def)
  also have "\<dots> < 2 ^ LENGTH(64)" by (rule unsigned_less)
  finally show "unat (running_fast s) + unat (running_slow s) < 2 ^ LENGTH(64)" .
qed

text \<open>All the case distinctions of \<open>schedulable\<close> come down to one comparison.\<close>

lemma schedulable_iff:
  "Scheduler_schedulable pj s \<longleftrightarrow> running_fast s + running_slow s < total_lane s"
  by (auto simp: Scheduler_schedulable_def not_le split: Lane.splits)

lemma schedulable_unat:
  "lanes_ok s \<Longrightarrow> within_lanes s \<Longrightarrow>
   Scheduler_schedulable pj s \<longleftrightarrow>
     unat (running_fast s) + unat (running_slow s) < unat (total_lane s)"
  by (simp add: schedulable_iff word_less_nat_alt running_sum)

text \<open>What \<open>take_lane\<close> does to a schedulable job: it never exceeds a lane.\<close>

lemma take_lane_cases:
  assumes "lanes_ok s" "within_lanes s" "Scheduler_schedulable pj s"
    and "Scheduler_take_lane pj s = (l, s1)"
  obtains (fast) "l = FAST" "s1 = s\<lparr>running_fast := running_fast s + 1\<rparr>"
      "unat (running_fast s + 1) = Suc (unat (running_fast s))"
      "unat (running_fast s) < unat (fast_lane s)"
  | (slow) "l = SLOW" "s1 = s\<lparr>running_slow := running_slow s + 1\<rparr>"
      "unat (running_slow s + 1) = Suc (unat (running_slow s))"
      "unat (running_slow s) < unat (slow_lane s)"
proof -
  have sum: "unat (running_fast s) + unat (running_slow s) < unat (fast_lane s) + unat (slow_lane s)"
    using assms(1-3) by (simp add: schedulable_unat lanes_sum)
  have fast_room: "unat (running_fast s) < unat (fast_lane s)"
    if "\<not> running_slow s < slow_lane s"
    using that sum by (simp add: word_less_nat_alt)
  have slow_room: "unat (running_slow s) < unat (slow_lane s)"
    if "\<not> running_fast s < fast_lane s"
    using that sum by (simp add: word_less_nat_alt)
  show thesis
    using assms(4) fast slow fast_room slow_room unat_inc_below [of "running_fast s" "fast_lane s"]
      unat_inc_below [of "running_slow s" "slow_lane s"]
    by (auto simp: Scheduler_take_lane_def word_less_nat_alt split: Lane.splits if_splits)
qed

section \<open>Counters and running jobs\<close>

definition lane_jobs :: "Lane \<Rightarrow> Scheduler \<Rightarrow> nat" where
  "lane_jobs l s = count_in (running s) (\<lambda>rj. rj_lane rj = l)"

fun lane_counter :: "Lane \<Rightarrow> Scheduler \<Rightarrow> size_t" where
  "lane_counter FAST s = running_fast s"
| "lane_counter SLOW s = running_slow s"

definition running_wf :: "Scheduler \<Rightarrow> bool" where
  "running_wf s \<longleftrightarrow> finite (dom (running s)) \<and>
     (\<forall>i rj. running s i = Some rj \<longrightarrow>
        job_id (rj_spec rj) = i \<and> (rj_timer rj \<noteq> None \<longleftrightarrow> rj_lane rj = FAST))"

definition SCH_inv :: "Scheduler \<Rightarrow> bool" where
  "SCH_inv s \<longleftrightarrow> lanes_ok s \<and> within_lanes s \<and> running_wf s \<and>
     (\<forall>l. lane_jobs l s \<le> unat (lane_counter l s)) \<and>
     P90_inv (p90_estimator s) \<and> p90_capacity (p90_estimator s) = P90_default_capacity"

text \<open>The identifiers waiting in the queue, in order.\<close>

definition pending_ids :: "Scheduler \<Rightarrow> string list" where
  "pending_ids s = map (\<lambda>pj. job_id (pj_spec pj)) (q_deque (sch_pq s))"

text \<open>Under distinct identifiers the counters are exact.\<close>

definition SCH_exact :: "Scheduler \<Rightarrow> bool" where
  "SCH_exact s \<longleftrightarrow> SCH_inv s \<and> (\<forall>l. lane_jobs l s = unat (lane_counter l s)) \<and>
     distinct (pending_ids s) \<and> set (pending_ids s) \<inter> dom (running s) = {}"

lemmas SCH_inv_defs = SCH_inv_def lanes_ok_def within_lanes_def running_wf_def all_Lane

lemma SCH_new_exact:
  assumes "Scheduler_new ioc (Some q) (Some st) lane = Inr s"
    and "distinct (map (\<lambda>pj. job_id (pj_spec pj)) (q_deque q))"
  shows "SCH_exact s"
proof -
  have l: "4 \<le> unat lane"
    using assms(1) by (auto simp: Scheduler_new_def word_less_nat_alt split: if_splits)
  have d: "unat (lane div 4) = unat lane div 4" by (simp add: unat_div)
  have "lane div 4 \<le> lane" by (simp add: word_le_nat_alt d)
  then have "unat (lane - lane div 4) = unat lane - unat lane div 4"
    by (simp add: unat_sub d)
  then show ?thesis
    using assms l d
    by (auto simp: Scheduler_new_def SCH_exact_def SCH_inv_defs lane_jobs_def pending_ids_def
        P90_default_capacity_def P90_Estimator_new_def P90_inv_def
        split: if_splits Lane.splits)
qed

text \<open>Operations that touch neither lanes nor jobs.\<close>

lemma SCH_inv_frame [simp]:
  "SCH_inv (s\<lparr>sch_stop := b\<rparr>) = SCH_inv s"
  "SCH_inv (s\<lparr>sch_loops := n\<rparr>) = SCH_inv s"
  "SCH_inv (s\<lparr>sch_pq := q\<rparr>) = SCH_inv s"
  by (simp_all add: SCH_inv_defs lane_jobs_def)

lemma SCH_exact_frame [simp]:
  "SCH_exact (s\<lparr>sch_stop := b\<rparr>) = SCH_exact s"
  "SCH_exact (s\<lparr>sch_loops := n\<rparr>) = SCH_exact s"
  by (simp_all add: SCH_exact_def lane_jobs_def all_Lane pending_ids_def)

section \<open>Scheduling a job\<close>

text \<open>The effect of \<open>schedule\<close> on the scheduler object, with the manager's answer named.\<close>

lemma schedule_cases:
  assumes "SCH_inv s" "Scheduler_schedulable pj s"
    and "Scheduler_schedule api eager now pj (s, m, w) = Inr (s', m', w')"
  obtains (fast) pid t where
      "Process_Manager_spawn api eager (job_opts (pj_spec pj)) None None
         (Some (job_id (pj_spec pj))) m w = Inr (pid, m', w')"
      "s' = s\<lparr>running_fast := running_fast s + 1,
              running := map_emplace (job_id (pj_spec pj)) (start_job pj FAST pid now (Some t))
                           (running s)\<rparr>"
      "unat (running_fast s + 1) = Suc (unat (running_fast s))"
      "unat (running_fast s) < unat (fast_lane s)"
  | (slow) pid where
      "Process_Manager_spawn api eager (job_opts (pj_spec pj)) None None
         (Some (job_id (pj_spec pj))) m w = Inr (pid, m', w')"
      "s' = s\<lparr>running_slow := running_slow s + 1,
              running := map_emplace (job_id (pj_spec pj)) (start_job pj SLOW pid now None)
                           (running s)\<rparr>"
      "unat (running_slow s + 1) = Suc (unat (running_slow s))"
      "unat (running_slow s) < unat (slow_lane s)"
proof -
  obtain l s1 where tl: "Scheduler_take_lane pj s = (l, s1)" by fastforce
  note sch = assms(3) [unfolded Scheduler_schedule_def Let_def prod.case tl and_then_Inr]
  have inv: "lanes_ok s" "within_lanes s" using assms(1) by (simp_all add: SCH_inv_def)
  from inv assms(2) tl show thesis
  proof (cases rule: take_lane_cases)
    case fast
    then show thesis using sch that(1) by auto
  next
    case slow
    then show thesis using sch that(2) by auto
  qed
qed

text \<open>The same, uniformly in the lane that was taken.\<close>

lemma schedule_effect:
  assumes "SCH_inv s" "Scheduler_schedulable pj s"
    and "Scheduler_schedule api eager now pj (s, m, w) = Inr (s', m', w')"
  obtains l pid t where
    "Process_Manager_spawn api eager (job_opts (pj_spec pj)) None None
       (Some (job_id (pj_spec pj))) m w = Inr (pid, m', w')"
    "running s' = map_emplace (job_id (pj_spec pj)) (start_job pj l pid now t) (running s)"
    "t \<noteq> None \<longleftrightarrow> l = FAST"
    "\<forall>k. unat (lane_counter k s') = unat (lane_counter k s) + (if k = l then 1 else 0)"
    "within_lanes s'" "lanes_ok s'" "sch_pq s' = sch_pq s" "sch_storage s' = sch_storage s"
    "p90_estimator s' = p90_estimator s" "sch_stop s' = sch_stop s"
    "total_lane s' = total_lane s"
  using assms
proof (cases rule: schedule_cases)
  case (fast pid t)
  have "\<forall>k. unat (lane_counter k s') = unat (lane_counter k s) + (if k = FAST then 1 else 0)"
    using fast(2,3) by (simp add: all_Lane)
  moreover have "within_lanes s'" "lanes_ok s'"
    using assms(1) fast(2-4) by (simp_all add: SCH_inv_defs)
  ultimately show thesis using fast(1,2) by (intro that [of pid FAST "Some t"]) simp_all
next
  case (slow pid)
  have "\<forall>k. unat (lane_counter k s') = unat (lane_counter k s) + (if k = SLOW then 1 else 0)"
    using slow(2,3) by (simp add: all_Lane)
  moreover have "within_lanes s'" "lanes_ok s'"
    using assms(1) slow(2-4) by (simp_all add: SCH_inv_defs)
  ultimately show thesis using slow(1,2) by (intro that [of pid SLOW None]) simp_all
qed

lemma lane_jobs_frame [simp]: "lane_jobs l (s\<lparr>sch_pq := q\<rparr>) = lane_jobs l s"
  by (simp add: lane_jobs_def)

lemma lane_counter_frame [simp]: "lane_counter l (s\<lparr>sch_pq := q\<rparr>) = lane_counter l s"
  by (cases l) simp_all

lemma lane_jobs_erase:
  assumes "finite (dom (running s))" "running s i = Some rj"
  shows "lane_jobs l s = count_in ((running s)(i := None)) (\<lambda>rj. rj_lane rj = l)
    + (if rj_lane rj = l then 1 else 0)"
  using assms by (simp add: lane_jobs_def count_in_delete [of "running s" i rj])

lemma schedule_inv [inv_rules]:
  assumes "SCH_inv s" "Scheduler_schedulable pj s"
    and "Scheduler_schedule api eager now pj (s, m, w) = Inr (s', m', w')"
  shows "SCH_inv s'"
proof -
  obtain l pid t where
    r: "running s' = map_emplace (job_id (pj_spec pj)) (start_job pj l pid now t) (running s)"
      "t \<noteq> None \<longleftrightarrow> l = FAST"
    and c: "\<forall>k. unat (lane_counter k s') = unat (lane_counter k s) + (if k = l then 1 else 0)"
    and f: "within_lanes s'" "lanes_ok s'" "p90_estimator s' = p90_estimator s"
    by (rule schedule_effect [OF assms]) (rule that)
  have wf: "running_wf s" using assms(1) by (simp add: SCH_inv_def)
  then have "running_wf s'"
    using r by (auto simp: running_wf_def map_emplace_lookup start_job_def)
  moreover have "lane_jobs k s' \<le> unat (lane_counter k s')" for k
  proof -
    have "lane_jobs k s \<le> unat (lane_counter k s)" using assms(1) by (simp add: SCH_inv_def)
    then show ?thesis
      using wf spec [OF c, of k] r(1)
      by (auto simp: lane_jobs_def count_in_emplace running_wf_def start_job_def)
  qed
  ultimately show ?thesis using assms(1) f by (simp add: SCH_inv_def)
qed

lemma schedule_exact:
  assumes "SCH_exact s" "Scheduler_schedulable pj s"
    and "running s (job_id (pj_spec pj)) = None" "job_id (pj_spec pj) \<notin> set (pending_ids s)"
    and "Scheduler_schedule api eager now pj (s, m, w) = Inr (s', m', w')"
  shows "SCH_exact s'" "dom (running s') = insert (job_id (pj_spec pj)) (dom (running s))"
    "sch_pq s' = sch_pq s"
proof -
  have inv: "SCH_inv s" using assms(1) by (simp add: SCH_exact_def)
  then have wf: "finite (dom (running s))" by (simp add: SCH_inv_defs)
  obtain l pid t where
    r: "running s' = map_emplace (job_id (pj_spec pj)) (start_job pj l pid now t) (running s)"
    and c: "\<forall>k. unat (lane_counter k s') = unat (lane_counter k s) + (if k = l then 1 else 0)"
    and f: "sch_pq s' = sch_pq s"
    by (rule schedule_effect [OF inv assms(2,5)]) (rule that)
  show "sch_pq s' = sch_pq s" by (rule f)
  show d: "dom (running s') = insert (job_id (pj_spec pj)) (dom (running s))"
    using r assms(3) by simp
  have "lane_jobs k s' = unat (lane_counter k s')" for k
  proof -
    have "lane_jobs k s = unat (lane_counter k s)" using assms(1) by (simp add: SCH_exact_def)
    then show ?thesis
      using wf spec [OF c, of k] r assms(3) by (auto simp: lane_jobs_def count_in_insert start_job_def)
  qed
  moreover have "SCH_inv s'" using inv assms(2,5) by (rule schedule_inv)
  moreover have "pending_ids s' = pending_ids s" by (simp add: pending_ids_def f)
  ultimately show "SCH_exact s'"
    using assms(1,4) d by (simp add: SCH_exact_def)
qed

section \<open>The loop\<close>

lemma run_loop_cases:
  assumes "Scheduler_run_loop api eager now (s, m, w) = Inr (s', m', w')"
  obtains (stopped) "sch_stop s" "s' = s" "m' = m" "w' = w"
  | (idle) "\<not> sch_stop s" "s' = s\<lparr>sch_loops := Suc (sch_loops s)\<rparr>" "m' = m" "w' = w"
      "\<forall>pj rest. q_deque (sch_pq s) = pj # rest \<longrightarrow> \<not> Scheduler_schedulable pj s"
  | (scheduled) pj q' s1 where "\<not> sch_stop s" "q_deque (sch_pq s) = pj # q_deque q'"
      "Scheduler_schedulable pj s"
      "Scheduler_schedule api eager now pj (s\<lparr>sch_pq := q'\<rparr>, m, w) = Inr (s1, m', w')"
      "s' = s1\<lparr>sch_loops := Suc (sch_loops s1)\<rparr>"
proof (cases "sch_stop s")
  case True
  then show thesis using assms by (intro stopped) (simp_all add: Scheduler_run_loop_def)
next
  case nostop: False
  show thesis
  proof (cases "q_deque (sch_pq s)")
    case Nil
    then show thesis
      using assms nostop by (intro idle) (simp_all add: Scheduler_run_loop_def pending.empty_items)
  next
    case (Cons pj rest)
    then obtain q' where q': "Pending_Q_pop (sch_pq s) = Some (pj, q')" "q_deque q' = rest"
      by (rule pending.dequeue_obtain)
    have fr: "Pending_Q_front (sch_pq s) = Some pj" "\<not> Pending_Q_empty (sch_pq s)"
      using Cons by (simp_all add: pending.peek_items pending.empty_items)
    show thesis
    proof (cases "Scheduler_schedulable pj s")
      case False
      then show thesis
        using assms nostop Cons fr by (intro idle) (simp_all add: Scheduler_run_loop_def)
    next
      case True
      then have "and_then (Scheduler_schedule api eager now pj (s\<lparr>sch_pq := q'\<rparr>, m, w))
          (\<lambda>(s1, m1, w1). Inr (s1\<lparr>sch_loops := Suc (sch_loops s1)\<rparr>, m1, w1)) = Inr (s', m', w')"
        using assms nostop fr q'(1) by (simp add: Scheduler_run_loop_def)
      then obtain s1 where
        "Scheduler_schedule api eager now pj (s\<lparr>sch_pq := q'\<rparr>, m, w) = Inr (s1, m', w')"
        "s' = s1\<lparr>sch_loops := Suc (sch_loops s1)\<rparr>"
        unfolding and_then_Inr by fastforce
      then show thesis using nostop Cons q'(2) True by (intro scheduled [of pj q']) simp_all
    qed
  qed
qed

lemma schedulable_frame [simp]:
  "Scheduler_schedulable pj (s\<lparr>sch_pq := q\<rparr>) = Scheduler_schedulable pj s"
  "Scheduler_schedulable pj (s\<lparr>sch_loops := n\<rparr>) = Scheduler_schedulable pj s"
  by (simp_all add: schedulable_iff)

lemma run_loop_inv [inv_rules]:
  assumes "SCH_inv s" "Scheduler_run_loop api eager now (s, m, w) = Inr (s', m', w')"
  shows "SCH_inv s'"
  using assms(2)
proof (cases rule: run_loop_cases)
  case (scheduled pj q' s1)
  have "SCH_inv s1"
    by (rule schedule_inv [OF _ _ scheduled(4)]) (use assms(1) scheduled(3) in simp_all)
  with scheduled show ?thesis by simp
qed (use assms(1) in simp_all)

section \<open>Freeing a lane\<close>

text \<open>A job leaves the table: both \<open>handle_exit\<close> and \<open>handle_timeout\<close> end like this.\<close>

definition release_job :: "string \<Rightarrow> Running_Job \<Rightarrow> Scheduler \<Rightarrow> Scheduler" where
  "release_job i rj s =
     (let s2 = Scheduler_free_lane (rj_lane rj) s in s2\<lparr>running := (running s2)(i := None)\<rparr>)"

lemma release_job_simps:
  "release_job i rj s =
     (if rj_lane rj = FAST
      then s\<lparr>running_fast := running_fast s - 1, running := (running s)(i := None)\<rparr>
      else s\<lparr>running_slow := running_slow s - 1, running := (running s)(i := None)\<rparr>)"
  by (cases "rj_lane rj") (simp_all add: release_job_def Scheduler_free_lane_def)

lemma release_counter:
  assumes "SCH_inv s" "running s i = Some rj"
  shows "unat (lane_counter l (release_job i rj s)) =
      unat (lane_counter l s) - (if l = rj_lane rj then 1 else 0)"
    and "0 < unat (lane_counter (rj_lane rj) s)"
    and "lane_jobs l (release_job i rj s) = lane_jobs l s - (if l = rj_lane rj then 1 else 0)"
proof -
  have fin: "finite (dom (running s))" using assms(1) by (simp add: SCH_inv_defs)
  note er = lane_jobs_erase [OF fin assms(2)]
  show pos: "0 < unat (lane_counter (rj_lane rj) s)"
    using er [of "rj_lane rj"] assms(1) by (auto simp: SCH_inv_def dest!: spec [of _ "rj_lane rj"])
  show "unat (lane_counter l (release_job i rj s)) =
      unat (lane_counter l s) - (if l = rj_lane rj then 1 else 0)"
    using unat_dec_pos [OF pos] by (cases l; cases "rj_lane rj") (simp_all add: release_job_simps)
  show "lane_jobs l (release_job i rj s) = lane_jobs l s - (if l = rj_lane rj then 1 else 0)"
    using er [of l] by (simp add: release_job_simps lane_jobs_def)
qed

lemma release_inv [inv_rules]:
  assumes "SCH_inv s" "running s i = Some rj"
  shows "SCH_inv (release_job i rj s)"
proof -
  note rc = release_counter [OF assms]
  have "\<forall>l. lane_jobs l (release_job i rj s) \<le> unat (lane_counter l (release_job i rj s))"
    using assms(1) rc(1,3) by (auto simp: SCH_inv_def diff_le_mono)
  moreover have "within_lanes (release_job i rj s)"
    using assms(1) rc(1) [of FAST] rc(1) [of SLOW]
    by (auto simp: SCH_inv_def within_lanes_def release_job_simps split: if_splits)
  moreover have "running_wf (release_job i rj s)" "lanes_ok (release_job i rj s)"
    using assms(1) by (auto simp: SCH_inv_defs release_job_simps)
  ultimately show ?thesis
    using assms(1) by (auto simp: SCH_inv_def release_job_simps)
qed

lemma release_exact:
  assumes "SCH_exact s" "running s i = Some rj"
  shows "SCH_exact (release_job i rj s)"
  using assms release_inv [of s i rj] release_counter(1,3) [of s i rj]
  by (auto simp: SCH_exact_def pending_ids_def release_job_simps)

lemma release_fields [simp]:
  "running (release_job i rj s) = (running s)(i := None)"
  "sch_pq (release_job i rj s) = sch_pq s"
  "sch_storage (release_job i rj s) = sch_storage s"
  "p90_estimator (release_job i rj s) = p90_estimator s"
  by (simp_all add: release_job_simps)

section \<open>Exit and timeout\<close>

lemma handle_exit_eq:
  "Scheduler_handle_exit now i code s =
     (case running s i of None \<Rightarrow> Inr s
      | Some rj \<Rightarrow>
          if WIFEXITED code then
            (case P90_Estimator_add (duration_cast_seconds (now - rj_start_time rj))
                    (p90_estimator s) of
               None \<Rightarrow> Inl Empty_Container
             | Some e \<Rightarrow> Inr (release_job i rj
                 (s\<lparr>sch_storage := Finished_Storage_store (finish_job rj now code) (sch_storage s),
                    p90_estimator := e\<rparr>)))
          else Inr (release_job i rj s))"
  by (auto simp: Scheduler_handle_exit_def release_job_def Let_def split: option.splits)

lemma handle_timeout_eq:
  "Scheduler_handle_timeout api i (s, m, w) =
     (case running s i of None \<Rightarrow> Inr (s, m, w)
      | Some rj \<Rightarrow>
          and_then (Process_Manager_terminate api (rj_pid rj) m w) (\<lambda>(m1, w1).
            Inr ((release_job i rj s)\<lparr>sch_pq := Pending_Q_push (requeue_job rj) (sch_pq s)\<rparr>, m1, w1)))"
  by (auto simp: Scheduler_handle_timeout_def release_job_def Let_def Scheduler_free_lane_def
      split: option.splits Lane.splits intro!: arg_cong [where f = "and_then _"])

lemma SCH_record_exit:
  assumes "P90_Estimator_add d (p90_estimator s) = Some e"
  shows "SCH_inv s \<Longrightarrow> SCH_inv (s\<lparr>sch_storage := st, p90_estimator := e\<rparr>)"
    and "SCH_exact s \<Longrightarrow> SCH_exact (s\<lparr>sch_storage := st, p90_estimator := e\<rparr>)"
  using assms P90_add_inv [OF _ assms] P90_add_capacity [OF assms]
  by (simp_all add: SCH_exact_def SCH_inv_defs lane_jobs_def pending_ids_def)

lemma handle_exit_inv [inv_rules]:
  assumes "SCH_inv s" "Scheduler_handle_exit now i code s = Inr s'"
  shows "SCH_inv s'"
  using assms
  by (auto simp: handle_exit_eq split: option.splits if_splits
      intro!: release_inv SCH_record_exit(1))

lemma handle_exit_exact:
  assumes "SCH_exact s" "Scheduler_handle_exit now i code s = Inr s'"
  shows "SCH_exact s'" "running s' = (running s)(i := None)" "sch_pq s' = sch_pq s"
proof -
  show "SCH_exact s'"
    using assms
    by (auto simp: handle_exit_eq split: option.splits if_splits
        intro!: release_exact SCH_record_exit(2))
  show "running s' = (running s)(i := None)" "sch_pq s' = sch_pq s"
    using assms(2) by (auto simp: handle_exit_eq split: option.splits if_splits)
qed

lemma handle_exit_defined:
  assumes "SCH_inv s"
  shows "\<exists>s'. Scheduler_handle_exit now i code s = Inr s'"
proof (cases "running s i")
  case None
  then show ?thesis by (simp add: handle_exit_eq)
next
  case (Some rj)
  then obtain e where
    "P90_Estimator_add (duration_cast_seconds (now - rj_start_time rj)) (p90_estimator s) = Some e"
    using P90_add_total [of "p90_estimator s"] assms unfolding SCH_inv_def by blast
  with Some show ?thesis by (simp add: handle_exit_eq)
qed

lemma handle_timeout_inv [inv_rules]:
  assumes "SCH_inv s" "Scheduler_handle_timeout api i (s, m, w) = Inr (s', m', w')"
  shows "SCH_inv s'"
  using assms
  by (auto simp: handle_timeout_eq and_then_Inr split: option.splits intro: release_inv)

lemma handle_timeout_exact:
  assumes "SCH_exact s" "Scheduler_handle_timeout api i (s, m, w) = Inr (s', m', w')"
  shows "SCH_exact s'"
proof (cases "running s i")
  case None
  then show ?thesis using assms by (simp add: handle_timeout_eq)
next
  case (Some rj)
  then have s': "s' = (release_job i rj s)\<lparr>sch_pq := Pending_Q_push (requeue_job rj) (sch_pq s)\<rparr>"
    using assms(2) by (auto simp: handle_timeout_eq and_then_Inr)
  have i: "job_id (rj_spec rj) = i"
    using assms(1) Some by (simp add: SCH_exact_def SCH_inv_defs)
  have ids: "pending_ids s' = pending_ids s @ [i]"
    by (simp add: s' pending_ids_def requeue_job_def i)
  have "i \<notin> set (pending_ids s)" using assms(1) Some by (auto simp: SCH_exact_def)
  then show ?thesis
    using release_exact [OF assms(1) Some] ids assms(1)
    by (auto simp: SCH_exact_def s' all_Lane)
qed

end
