(* ===== verification/Aps_System.thy ===== *)
theory Aps_System
  imports Aps_Scheduler_Inv
begin

text \<open>
  The scheduler in operation: every event that can reach it (a job pushed onto its queue, the
  calls \<open>run\<close> and \<open>stop\<close>, a loop iteration, the exit callback of a child, the expiry of a job
  timer, a change of the outside world) as a labelled step, in any order and any number. Nothing
  is assumed about when exit callbacks and timer expiries arrive: a late or spurious one is a step
  too. Two history variables, the multisets of submitted and of exited identifiers, ride along.
\<close>

section \<open>Steps\<close>

type_synonym ('c, 'l, 'w) aps_state =
  "('c, 'l, 'w) sched_state \<times> string multiset \<times> string multiset"

datatype Aps_Event =
    Ev_Submit Pending_Job
  | Ev_Run
  | Ev_Stop
  | Ev_Tick int
  | Ev_Exit int string "32 word"
  | Ev_Timeout string
  | Ev_World

definition known_ids :: "Scheduler \<Rightarrow> string set" where
  "known_ids s = set (pending_ids s) \<union> dom (running s)"

text \<open>
  With \<open>fresh\<close> set, clients submit only identifiers that are neither pending nor running; without
  it they submit anything.
\<close>

inductive aps_step ::
  "('c, string, 'w) process_api \<Rightarrow> bool \<Rightarrow> bool \<Rightarrow> ('c, 'l, 'w) aps_state \<Rightarrow> Aps_Event \<Rightarrow>
   ('c, 'l, 'w) aps_state \<Rightarrow> bool"
  for api :: "('c, string, 'w) process_api" and eager :: bool and fresh :: bool where
  submit: "fresh \<longrightarrow> job_id (pj_spec pj) \<notin> known_ids s \<Longrightarrow>
     aps_step api eager fresh ((s, m, w), sub, ex) (Ev_Submit pj)
       ((s\<lparr>sch_pq := Pending_Q_push pj (sch_pq s)\<rparr>, m, w), add_mset (job_id (pj_spec pj)) sub, ex)"
| run: "aps_step api eager fresh ((s, m, w), sub, ex) Ev_Run ((Scheduler_run s, m, w), sub, ex)"
| stop: "aps_step api eager fresh ((s, m, w), sub, ex) Ev_Stop ((Scheduler_stop s, m, w), sub, ex)"
| tick: "0 < sch_loops s \<Longrightarrow> Scheduler_tick api eager now (s, m, w) = Inr st' \<Longrightarrow>
     aps_step api eager fresh ((s, m, w), sub, ex) (Ev_Tick now) (st', sub, ex)"
| exit: "Scheduler_handle_exit now i code s = Inr s' \<Longrightarrow>
     aps_step api eager fresh ((s, m, w), sub, ex) (Ev_Exit now i code)
       ((s', m, w), sub, (if running s i = None then ex else add_mset i ex))"
| timeout: "Scheduler_handle_timeout api i (s, m, w) = Inr st' \<Longrightarrow>
     aps_step api eager fresh ((s, m, w), sub, ex) (Ev_Timeout i) (st', sub, ex)"
| world: "aps_step api eager fresh ((s, m, w), sub, ex) Ev_World ((s, m, w'), sub, ex)"

inductive_cases aps_stepE: "aps_step api eager fresh st e st'"

text \<open>A freshly constructed scheduler over an empty queue, with an opened process manager.\<close>

fun aps_init ::
  "('c, string, 'w) process_api \<Rightarrow> size_t \<Rightarrow> ('c, 'l, 'w) aps_state \<Rightarrow> bool" where
  "aps_init api lane ((s, m, w), sub, ex) \<longleftrightarrow>
     Scheduler_new True (Some Pending_Q_new) (Some Finished_Storage_new) lane = Inr s \<and>
     PM_inv api m \<and> pm_ioc m \<and> sub = {#} \<and> ex = {#}"

section \<open>What the scheduler needs of the process manager\<close>

text \<open>
  The scheduler calls the manager in two places: \<open>spawn\<close>, always without line callbacks, and
  \<open>terminate\<close>. A predicate on managers that both keep is kept by every step of the scheduler.
\<close>

locale process_service =
  fixes api :: "('c, string, 'w) process_api"
    and eager :: bool
    and ok :: "('c, 'l, string) Process_Manager \<Rightarrow> bool"
  assumes spawn_ok:
      "ok m \<Longrightarrow> Process_Manager_spawn api eager opts None None cb m w = Inr (pid, m', w') \<Longrightarrow> ok m'"
    and terminate_ok:
      "ok m \<Longrightarrow> Process_Manager_terminate api pid m w = Inr (m', w') \<Longrightarrow> ok m'"
begin

lemma schedule_service:
  assumes "ok m" "Scheduler_schedule api eager now pj (s, m, w) = Inr (s', m', w')"
  shows "ok m'"
  using assms by (auto simp: Scheduler_schedule_def Let_def and_then_Inr split: prod.splits intro: spawn_ok)

lemma run_loop_service:
  assumes "ok m" "Scheduler_run_loop api eager now (s, m, w) = Inr (s', m', w')"
  shows "ok m'"
  using assms(2)
proof (cases rule: run_loop_cases)
  case (scheduled pj q' s1)
  then show ?thesis using schedule_service [OF assms(1)] by blast
qed (use assms(1) in simp_all)

lemma handle_timeout_service:
  assumes "ok m" "Scheduler_handle_timeout api i (s, m, w) = Inr (s', m', w')"
  shows "ok m'"
  using assms by (auto simp: handle_timeout_eq and_then_Inr split: option.splits intro: terminate_ok)

lemma step_service:
  assumes "ok m" "aps_step api eager fresh ((s, m, w), sub, ex) e ((s', m', w'), sub', ex')"
  shows "ok m'"
  using assms(2) assms(1)
  by (cases rule: aps_step.cases)
    (auto simp: Scheduler_tick_def dest: run_loop_service handle_timeout_service)

lemma reach_service:
  assumes "reach init (aps_step api eager fresh) st"
    and "\<And>s m w h. init ((s, m, w), h) \<Longrightarrow> ok m"
  shows "ok (fst (snd (fst st)))"
  using assms(1)
proof (induction rule: reach.induct)
  case (reach_init st)
  obtain s m w h where "st = ((s, m, w), h)" by (metis prod.exhaust)
  with reach_init assms(2) show ?case by auto
next
  case (reach_step st e st')
  obtain s m w sub ex s' m' w' sub' ex'
    where "st = ((s, m, w), sub, ex)" "st' = ((s', m', w'), sub', ex')" by (metis prod.exhaust)
  with reach_step step_service show ?case by fastforce
qed

end

text \<open>Where both calls are also defined under \<open>ok\<close>, so is every handler of the scheduler.\<close>

locale total_process_service = process_service api eager ok
  for api :: "('c, string, 'w) process_api"
    and eager :: bool
    and ok :: "('c, 'l, string) Process_Manager \<Rightarrow> bool" +
  assumes spawn_total: "ok m \<Longrightarrow> \<exists>r. Process_Manager_spawn api eager opts None None cb m w = Inr r"
    and terminate_total: "ok m \<Longrightarrow> \<exists>r. Process_Manager_terminate api pid m w = Inr r"
begin

lemma schedule_total:
  assumes "ok m"
  shows "\<exists>r. Scheduler_schedule api eager now pj (s, m, w) = Inr r"
proof -
  obtain pid m' w' where "Process_Manager_spawn api eager (job_opts (pj_spec pj)) None None
      (Some (job_id (pj_spec pj))) m w = Inr (pid, m', w')"
    using spawn_total [OF assms] by fastforce
  then show ?thesis by (auto simp: Scheduler_schedule_def Let_def split: prod.splits)
qed

lemma run_loop_defined:
  assumes "ok m"
  shows "\<exists>r. Scheduler_run_loop api eager now (s, m, w) = Inr r"
proof (cases "q_deque (sch_pq s)")
  case Nil
  then show ?thesis by (simp add: Scheduler_run_loop_def pending.empty_items)
next
  case (Cons pj rest)
  then obtain q' where "Pending_Q_pop (sch_pq s) = Some (pj, q')"
    by (rule pending.dequeue_obtain)
  moreover obtain s1 m1 w1 where
    "Scheduler_schedule api eager now pj (s\<lparr>sch_pq := q'\<rparr>, m, w) = Inr (s1, m1, w1)"
    using schedule_total [OF assms, of now pj "s\<lparr>sch_pq := q'\<rparr>" w] by fastforce
  ultimately show ?thesis
    using Cons by (simp add: Scheduler_run_loop_def pending.empty_items pending.peek_items)
qed

lemma tick_defined:
  assumes "ok m"
  obtains s' m' w' where "Scheduler_tick api eager now (s, m, w) = Inr (s', m', w')"
  using run_loop_defined [OF assms, of now "s\<lparr>sch_loops := sch_loops s - 1\<rparr>" w]
  by (force simp: Scheduler_tick_def)

lemma handle_timeout_defined:
  assumes "ok m"
  shows "\<exists>r. Scheduler_handle_timeout api i (s, m, w) = Inr r"
proof (cases "running s i")
  case None
  then show ?thesis by (simp add: handle_timeout_eq)
next
  case (Some rj)
  moreover obtain m' w' where "Process_Manager_terminate api (rj_pid rj) m w = Inr (m', w')"
    using terminate_total [OF assms] by fastforce
  ultimately show ?thesis by (simp add: handle_timeout_eq)
qed

end

section \<open>Invariants of the system\<close>

definition manager_ok :: "('c, string, 'w) process_api \<Rightarrow> ('c, 'l, string) Process_Manager \<Rightarrow> bool" where
  "manager_ok api m \<longleftrightarrow> PM_inv api m \<and> pm_ioc m"

fun SYS_inv :: "('c, string, 'w) process_api \<Rightarrow> size_t \<Rightarrow> ('c, 'l, 'w) aps_state \<Rightarrow> bool" where
  "SYS_inv api lane ((s, m, w), sub, ex) \<longleftrightarrow>
     SCH_inv s \<and> manager_ok api m \<and> total_lane s = lane"

lemma manager_ok_spawn:
  "manager_ok api m \<Longrightarrow> Process_Manager_spawn api eager opts so se cb m w = Inr (pid, m', w') \<Longrightarrow>
   manager_ok api m'"
  by (auto simp: manager_ok_def PM_spawn_ioc intro: PM_spawn_inv)

lemma manager_ok_terminate:
  "manager_ok api m \<Longrightarrow> Process_Manager_terminate api pid m w = Inr (m', w') \<Longrightarrow> manager_ok api m'"
  using PM_terminate_defined [of api m pid w] by (auto simp: manager_ok_def intro: PM_inv_erase)

lemma manager_ok_total:
  assumes "manager_ok api m"
  shows "\<exists>r. Process_Manager_spawn api eager opts so se cb m w = Inr r"
    and "\<exists>r. Process_Manager_terminate api pid m w = Inr r"
  using assms PM_spawn_defined PM_terminate_defined [of api m pid w] by (auto simp: manager_ok_def)

interpretation ok_service: total_process_service api eager "manager_ok api" for api eager
  by unfold_locales (blast intro: manager_ok_spawn manager_ok_terminate manager_ok_total)+

lemma run_loop_total:
  assumes "SCH_inv s" "Scheduler_run_loop api eager now (s, m, w) = Inr (s', m', w')"
  shows "total_lane s' = total_lane s"
  using assms(2)
proof (cases rule: run_loop_cases)
  case (scheduled pj q' s1)
  have "SCH_inv (s\<lparr>sch_pq := q'\<rparr>)" "Scheduler_schedulable pj (s\<lparr>sch_pq := q'\<rparr>)"
    using assms(1) scheduled(3) by simp_all
  then show ?thesis
    by (rule schedule_effect [OF _ _ scheduled(4)]) (use scheduled(5) in simp)
qed simp_all

lemma handle_exit_total: "Scheduler_handle_exit now i code s = Inr s' \<Longrightarrow> total_lane s' = total_lane s"
  by (auto simp: handle_exit_eq release_job_simps split: option.splits if_splits)

lemma handle_timeout_total:
  "Scheduler_handle_timeout api i (s, m, w) = Inr (s', m', w') \<Longrightarrow> total_lane s' = total_lane s"
  by (auto simp: handle_timeout_eq and_then_Inr release_job_simps split: option.splits)

lemma tick_inv:
  assumes "SCH_inv s" "manager_ok api m"
    and "Scheduler_tick api eager now (s, m, w) = Inr (s', m', w')"
  shows "SCH_inv s' \<and> manager_ok api m' \<and> total_lane s' = total_lane s"
proof -
  have l: "SCH_inv (s\<lparr>sch_loops := sch_loops s - 1\<rparr>)" using assms(1) by simp
  note r = assms(3) [unfolded Scheduler_tick_def prod.case]
  show ?thesis
    using run_loop_inv [OF l r] run_loop_total [OF l r] ok_service.run_loop_service [OF assms(2) r]
    by simp
qed

lemma SYS_inv_step:
  assumes "SYS_inv api lane st" "aps_step api eager fresh st e st'"
  shows "SYS_inv api lane st'"
  using assms(2)
proof (cases rule: aps_step.cases)
  case (tick s now m w t sub ex)
  obtain s' m' w' where "t = (s', m', w')" by (cases t) auto
  then show ?thesis using tick assms(1) tick_inv [of s api m eager now w s' m' w'] by simp
next
  case (timeout i s m w t sub ex)
  obtain s' m' w' where "t = (s', m', w')" by (cases t) auto
  then show ?thesis
    using timeout assms(1) handle_timeout_inv [of s api i m w s' m' w']
      handle_timeout_total [of api i s m w s' m' w']
      ok_service.handle_timeout_service [of api m i s w s' m' w'] by simp
next
  case (exit now i code s s' m w sub ex)
  then show ?thesis using assms(1) handle_exit_inv [of s now i code s'] handle_exit_total [of now i code s s']
    by simp
qed (use assms(1) in \<open>auto simp: Scheduler_run_def Scheduler_stop_def\<close>)

lemma Scheduler_new_total: "Scheduler_new ioc q st lane = Inr s \<Longrightarrow> total_lane s = lane"
  by (auto simp: Scheduler_new_def split: if_splits option.splits)

lemma SYS_inv_init: "aps_init api lane st \<Longrightarrow> SYS_inv api lane st"
proof -
  assume init: "aps_init api lane st"
  obtain s m w sub ex where st: "st = ((s, m, w), sub, ex)" by (cases st) auto
  with init have new: "Scheduler_new True (Some Pending_Q_new) (Some Finished_Storage_new) lane = Inr s"
    by simp
  have "SCH_exact s" by (rule SCH_new_exact [OF new]) simp
  then show ?thesis
    using init Scheduler_new_total [OF new] by (simp add: st manager_ok_def SCH_exact_def)
qed

interpretation aps: invariant_system "aps_init api lane" "aps_step api eager fresh" "SYS_inv api lane"
  for api lane eager fresh
  by unfold_locales (auto intro: SYS_inv_init SYS_inv_step)

section \<open>No job is lost\<close>

text \<open>The identifiers the scheduler is responsible for, with multiplicity.\<close>

definition live_ids :: "Scheduler \<Rightarrow> string multiset" where
  "live_ids s = mset (pending_ids s) + mset_set (dom (running s))"

fun SYS_exact :: "('c, string, 'w) process_api \<Rightarrow> ('c, 'l, 'w) aps_state \<Rightarrow> bool" where
  "SYS_exact api ((s, m, w), sub, ex) \<longleftrightarrow>
     SCH_exact s \<and> manager_ok api m \<and> live_ids s + ex = sub"

lemma live_ids_frame [simp]:
  "live_ids (s\<lparr>sch_stop := b\<rparr>) = live_ids s"
  "live_ids (s\<lparr>sch_loops := n\<rparr>) = live_ids s"
  by (simp_all add: live_ids_def pending_ids_def)

lemma run_loop_exact:
  assumes "SCH_exact s" "Scheduler_run_loop api eager now (s, m, w) = Inr (s', m', w')"
  shows "SCH_exact s' \<and> live_ids s' = live_ids s"
  using assms(2)
proof (cases rule: run_loop_cases)
  case (scheduled pj q' s1)
  let ?i = "job_id (pj_spec pj)" and ?s = "s\<lparr>sch_pq := q'\<rparr>"
  have ids: "pending_ids s = ?i # pending_ids ?s" using scheduled(2) by (simp add: pending_ids_def)
  have ex: "SCH_exact ?s" using assms(1) ids by (auto simp: SCH_exact_def)
  have i: "running ?s ?i = None" "?i \<notin> set (pending_ids ?s)"
    using assms(1) ids by (auto simp: SCH_exact_def)
  have sch: "Scheduler_schedulable pj ?s" using scheduled(3) by simp
  note se = schedule_exact [OF ex sch i scheduled(4)]
  have fin: "finite (dom (running s))" using assms(1) by (simp add: SCH_exact_def SCH_inv_defs)
  have "pending_ids s1 = pending_ids ?s" using se(3) by (simp add: pending_ids_def)
  moreover have "mset_set (dom (running s1)) = add_mset ?i (mset_set (dom (running s)))"
    using se(2) fin i(1) by (simp add: domIff)
  ultimately have "live_ids s1 = live_ids s" using ids by (simp add: live_ids_def)
  then show ?thesis using se(1) scheduled(5) by simp
qed (use assms(1) in simp_all)

lemma handle_exit_live:
  assumes "SCH_exact s" "Scheduler_handle_exit now i code s = Inr s'" "running s i = Some rj"
  shows "live_ids s = add_mset i (live_ids s')"
proof -
  have fin: "finite (dom (running s))" using assms(1) by (simp add: SCH_exact_def SCH_inv_defs)
  show ?thesis
    using handle_exit_exact(2,3) [OF assms(1,2)] mset_set_dom_delete [OF fin assms(3)]
    by (simp add: live_ids_def pending_ids_def)
qed

lemma handle_timeout_live:
  assumes "SCH_exact s" "Scheduler_handle_timeout api i (s, m, w) = Inr (s', m', w')"
  shows "live_ids s' = live_ids s"
proof (cases "running s i")
  case None
  then show ?thesis using assms by (simp add: handle_timeout_eq)
next
  case (Some rj)
  have fin: "finite (dom (running s))" using assms(1) by (simp add: SCH_exact_def SCH_inv_defs)
  have i: "job_id (rj_spec rj) = i" using assms(1) Some by (simp add: SCH_exact_def SCH_inv_defs)
  show ?thesis
    using assms(2) Some mset_set_dom_delete [OF fin Some]
    by (auto simp: handle_timeout_eq and_then_Inr live_ids_def pending_ids_def requeue_job_def i)
qed

lemma submit_exact:
  assumes "SCH_exact s" "job_id (pj_spec pj) \<notin> known_ids s"
  defines "s' \<equiv> s\<lparr>sch_pq := Pending_Q_push pj (sch_pq s)\<rparr>"
  shows "SCH_exact s'" "live_ids s' = add_mset (job_id (pj_spec pj)) (live_ids s)"
proof -
  have ids: "pending_ids s' = pending_ids s @ [job_id (pj_spec pj)]"
    by (simp add: s'_def pending_ids_def)
  then show "live_ids s' = add_mset (job_id (pj_spec pj)) (live_ids s)"
    by (simp add: live_ids_def s'_def)
  have "SCH_inv s'" "running s' = running s" "\<forall>l. lane_jobs l s' = unat (lane_counter l s')"
    using assms(1) by (simp_all add: SCH_exact_def s'_def all_Lane)
  then show "SCH_exact s'"
    using assms(1,2) ids by (auto simp: SCH_exact_def known_ids_def)
qed

lemma SYS_exact_step:
  assumes "SYS_exact api st" "aps_step api eager True st e st'"
  shows "SYS_exact api st'"
  using assms(2)
proof (cases rule: aps_step.cases)
  case (submit pj s m w sub ex)
  then show ?thesis using assms(1) submit_exact [of s pj] by auto
next
  case (tick s now m w t sub ex)
  obtain s' m' w' where t: "t = (s', m', w')" by (cases t) auto
  have ex: "SCH_exact s" "manager_ok api m" using tick assms(1) by auto
  then have "manager_ok api m'"
    using tick t tick_inv [of s api m eager now w s' m' w'] by (simp add: SCH_exact_def)
  then show ?thesis
    using tick assms(1) t ex run_loop_exact [of "s\<lparr>sch_loops := sch_loops s - 1\<rparr>" api eager now m w s' m' w']
    by (simp add: Scheduler_tick_def)
next
  case (exit now i code s s' m w sub ex)
  then have "SCH_exact s" using assms(1) by simp
  then show ?thesis
    using exit assms(1) handle_exit_exact(1) [of s now i code s'] handle_exit_live [of s now i code s']
    by (cases "running s i") (auto simp: handle_exit_eq)
next
  case (timeout i s m w t sub ex)
  obtain s' m' w' where "t = (s', m', w')" by (cases t) auto
  then show ?thesis
    using timeout assms(1) handle_timeout_exact [of s api i m w s' m' w']
      handle_timeout_live [of s api i m w s' m' w']
      ok_service.handle_timeout_service [of api m i s w s' m' w'] by simp
qed (use assms(1) in \<open>auto simp: Scheduler_run_def Scheduler_stop_def\<close>)

lemma SYS_exact_init: "aps_init api lane st \<Longrightarrow> SYS_exact api st"
proof -
  assume init: "aps_init api lane st"
  obtain s m w sub ex where st: "st = ((s, m, w), sub, ex)" by (cases st) auto
  with init have new: "Scheduler_new True (Some Pending_Q_new) (Some Finished_Storage_new) lane = Inr s"
    by simp
  have "SCH_exact s" by (rule SCH_new_exact [OF new]) simp
  moreover have "live_ids s = {#}"
    using new by (auto simp: Scheduler_new_def live_ids_def pending_ids_def split: if_splits)
  ultimately show ?thesis using init by (simp add: st manager_ok_def)
qed

interpretation aps_fresh: invariant_system "aps_init api lane" "aps_step api eager True" "SYS_exact api"
  for api lane eager
  by unfold_locales (auto intro: SYS_exact_init SYS_exact_step)

end
