(* ===== verification/Aps_Properties.thy ===== *)
theory Aps_Properties
  imports Aps_System
begin

text \<open>
  What the scheduler guarantees, over all reachable states of \<open>Aps_System\<close> and branch by branch
  for its handlers, with concrete runs that show the hypotheses are met.
\<close>

section \<open>A concrete run\<close>

definition demo_spec :: "string \<Rightarrow> Job_Specification" where
  "demo_spec i = \<lparr>job_id = i, job_opts = default_Process_Options\<lparr>exe := ''sleep''\<rparr>\<rparr>"

definition demo_job :: "string \<Rightarrow> Lane \<Rightarrow> Pending_Job" where
  "demo_job i l = \<lparr>pj_spec = demo_spec i, pj_lane = l\<rparr>"

definition demo_sch :: Scheduler where
  "demo_sch =
     \<lparr>sch_stop = False, sch_loops = 0, sch_pq = Pending_Q_new, sch_storage = Finished_Storage_new,
      total_lane = 4, fast_lane = 1, slow_lane = 3, running_fast = 0, running_slow = 0,
      default_timeout = 30, p90_estimator = P90_Estimator_new P90_default_capacity,
      running = Map.empty\<rparr>"

definition demo_pm :: "(nat, unit, string) Process_Manager" where
  "demo_pm = \<lparr>pm_ioc = True, pm_handlers = Map.empty\<rparr>"

text \<open>The same scheduler once job \<open>j\<close> was submitted and one loop iteration has run.\<close>

definition demo_sch1 :: Scheduler where
  "demo_sch1 = demo_sch
     \<lparr>sch_loops := 1, running_fast := 1,
      running := [''j'' \<mapsto> start_job (demo_job ''j'' FAST) FAST 5 0 (Some 30)]\<rparr>"

lemma demo_new: "Scheduler_new True (Some Pending_Q_new) (Some Finished_Storage_new) 4 = Inr demo_sch"
  by (simp add: Scheduler_new_def demo_sch_def)

lemma demo_init: "aps_init toy_api 4 ((demo_sch, demo_pm, []), {#}, {#})"
  by (simp add: demo_new PM_inv_def demo_pm_def)

text \<open>The scheduler with job \<open>j\<close> in its queue and its loop started.\<close>

definition demo_queued :: Scheduler where
  "demo_queued = Scheduler_run
     (demo_sch\<lparr>sch_pq := Pending_Q_push (demo_job ''j'' FAST) (sch_pq demo_sch)\<rparr>)"

text \<open>The handler of the child, and the manager that owns it.\<close>

definition demo_handler :: "(nat, unit, string) Process_Handler" where
  "demo_handler = (Process_Handler_new True)
     \<lparr>h_proc := Some 5, h_stdin := True, h_stdout := True, h_stderr := True,
      h_exit_cb := Some ''j''\<rparr>"

definition demo_pm1 :: "(nat, unit, string) Process_Manager" where
  "demo_pm1 = \<lparr>pm_ioc = True, pm_handlers = [5 \<mapsto> demo_handler]\<rparr>"

lemma demo_tick:
  "Scheduler_tick toy_api True 0 (demo_queued, demo_pm, []) = Inr (demo_sch1, demo_pm1, [5])"
  by (simp add: Scheduler_tick_def Scheduler_run_loop_def Scheduler_run_def Pending_Q_defs
      Scheduler_schedulable_def Scheduler_schedule_def Scheduler_take_lane_def demo_job_def
      Process_Manager_spawn_def Process_Manager_make_handler_def Process_Handler_spawn_def
      Process_Handler_new_def Process_Handler_exit_callback_def Process_Handler_handle_stdout_def
      Process_Handler_handle_stderr_def demo_sch_def demo_sch1_def demo_pm_def toy_api_def
      Scheduler_compute_timeout_def P90_Estimator_size_def P90_Estimator_new_def
      p90_min_samples_def demo_spec_def default_Process_Options_def Let_def
      demo_queued_def demo_pm1_def demo_handler_def)

definition demo_events :: "Aps_Event list" where
  "demo_events = [Ev_Submit (demo_job ''j'' FAST), Ev_Run]"

lemma demo_steps_queued:
  "steps (aps_step toy_api True fresh) ((demo_sch, demo_pm, []), {#}, {#}) demo_events
     ((demo_queued, demo_pm, []), {#''j''#}, {#})"
proof -
  let ?S = "aps_step toy_api True fresh"
  let ?q = "demo_sch\<lparr>sch_pq := Pending_Q_push (demo_job ''j'' FAST) (sch_pq demo_sch)\<rparr>"
  have i: "job_id (pj_spec (demo_job ''j'' FAST)) = ''j''"
    by (simp add: demo_job_def demo_spec_def)
  have k: "''j'' \<notin> known_ids demo_sch"
    by (simp add: known_ids_def pending_ids_def demo_sch_def)
  have "?S ((demo_sch, demo_pm, []), {#}, {#}) (Ev_Submit (demo_job ''j'' FAST))
      ((?q, demo_pm, []), {#''j''#}, {#})"
    using aps_step.submit [of fresh "demo_job ''j'' FAST" demo_sch toy_api True demo_pm "[]" "{#}" "{#}"]
      i k by simp
  moreover have "?S ((?q, demo_pm, []), {#''j''#}, {#}) Ev_Run ((demo_queued, demo_pm, []), {#''j''#}, {#})"
    unfolding demo_queued_def by (rule aps_step.run)
  ultimately show ?thesis unfolding demo_events_def by blast
qed

lemma demo_step_tick:
  "aps_step toy_api True fresh ((demo_queued, demo_pm, []), {#''j''#}, {#}) (Ev_Tick 0)
     ((demo_sch1, demo_pm1, [5]), {#''j''#}, {#})"
  by (rule aps_step.tick [OF _ demo_tick]) (simp add: Scheduler_run_def demo_queued_def)

lemma demo_reach_queued:
  assumes "I ((demo_sch, demo_pm, []), {#}, {#})"
  shows "reach I (aps_step toy_api True fresh) ((demo_queued, demo_pm, []), {#''j''#}, {#})"
  by (rule reach_steps [OF demo_steps_queued]) (rule reach_init, rule assms)

lemma demo_reach_from:
  assumes "I ((demo_sch, demo_pm, []), {#}, {#})"
  shows "reach I (aps_step toy_api True fresh) ((demo_sch1, demo_pm1, [5]), {#''j''#}, {#})"
  using demo_reach_queued [of I, OF assms] demo_step_tick by (rule reach_step)

lemma demo_reach:
  obtains m :: "(nat, unit, string) Process_Manager" and w where
    "reach (aps_init toy_api 4) (aps_step toy_api True fresh)
       ((demo_sch1, m, w), {#''j''#}, {#})"
  using demo_reach_from [of "aps_init toy_api 4", OF demo_init] that by blast

section \<open>Reachable states\<close>

lemma lane_jobs_sum:
  assumes "finite (dom (running s))"
  shows "lane_jobs FAST s + lane_jobs SLOW s = card (dom (running s))"
proof -
  let ?A = "\<lambda>l. {i. \<exists>rj. running s i = Some rj \<and> rj_lane rj = l}"
  have "dom (running s) = ?A FAST \<union> ?A SLOW" "?A FAST \<inter> ?A SLOW = {}"
    by (auto simp: Lane_cases_iff)
  then show ?thesis
    using finite_count_set [OF assms] by (simp add: lane_jobs_def count_in_def card_Un_disjoint)
qed

text \<open>
  C1: whatever clients submit and in whatever order loop iterations, exits and timeouts arrive, the
  fast lane never holds more than a quarter of the lanes, the slow lane never more than the rest,
  their sum does not wrap around and stays within the configured total, and no more jobs are
  running than lanes are counted as taken (so no decrement of a counter wraps below zero).
\<close>

theorem aps_lane_capacity:
  assumes "reach (aps_init api lane) (aps_step api eager False) ((s, m, w), sub, ex)"
  shows "unat (running_fast s) \<le> unat lane div 4
    \<and> unat (running_slow s) \<le> unat lane - unat lane div 4
    \<and> unat (running_fast s + running_slow s) = unat (running_fast s) + unat (running_slow s)
    \<and> unat (running_fast s + running_slow s) \<le> unat lane
    \<and> card (dom (running s)) \<le> unat (running_fast s) + unat (running_slow s)"
proof -
  have inv: "SCH_inv s" and t: "total_lane s = lane" using aps.reach_inv [OF assms] by simp_all
  then have l: "lanes_ok s" "within_lanes s" and f: "finite (dom (running s))"
    by (simp_all add: SCH_inv_def running_wf_def)
  have "card (dom (running s)) \<le> unat (running_fast s) + unat (running_slow s)"
    using inv lane_jobs_sum [OF f] by (simp add: SCH_inv_def all_Lane)
  then show ?thesis
    using running_sum [OF l] lanes_sum [OF l(1)] l t by (auto simp: lanes_ok_def within_lanes_def)
qed

theorem aps_lane_capacity_witness:
  "unat (running_fast demo_sch1) \<le> unat (4 :: size_t) div 4 \<and> card (dom (running demo_sch1)) = 1"
proof -
  obtain m :: "(nat, unit, string) Process_Manager" and w where "reach (aps_init toy_api 4) (aps_step toy_api True False)
      ((demo_sch1, m, w), {#''j''#}, {#})"
    by (rule demo_reach)
  from aps_lane_capacity [OF this] show ?thesis by (simp add: demo_sch1_def)
qed

text \<open>
  C2: when clients only submit identifiers that are neither pending nor running, the two lane
  counters are exactly the numbers of running jobs on those lanes in every reachable state.
\<close>

theorem aps_counters_exact:
  assumes "reach (aps_init api lane) (aps_step api eager True) ((s, m, w), sub, ex)"
  shows "unat (running_fast s) = card {i. \<exists>rj. running s i = Some rj \<and> rj_lane rj = FAST}
    \<and> unat (running_slow s) = card {i. \<exists>rj. running s i = Some rj \<and> rj_lane rj = SLOW}"
  using aps_fresh.reach_inv [OF assms]
  by (simp add: SCH_exact_def all_Lane lane_jobs_def count_in_def)

theorem aps_counters_exact_witness:
  "unat (running_fast demo_sch1) =
     card {i. \<exists>rj. running demo_sch1 i = Some rj \<and> rj_lane rj = FAST}"
proof -
  obtain m :: "(nat, unit, string) Process_Manager" and w where "reach (aps_init toy_api 4) (aps_step toy_api True True)
      ((demo_sch1, m, w), {#''j''#}, {#})"
    by (rule demo_reach)
  from aps_counters_exact [OF this] show ?thesis by blast
qed

text \<open>
  C3: no job is lost or duplicated. With fresh submissions, at every moment the submitted
  identifiers are exactly the pending ones, the running ones and the ones whose exit was handled,
  and no identifier is pending twice or pending and running at once; in particular a timed-out
  job is back in the queue.
\<close>

theorem aps_no_job_lost:
  assumes "reach (aps_init api lane) (aps_step api eager True) ((s, m, w), sub, ex)"
  shows "sub = mset (pending_ids s) + mset_set (dom (running s)) + ex
    \<and> distinct (pending_ids s) \<and> set (pending_ids s) \<inter> dom (running s) = {}"
  using aps_fresh.reach_inv [OF assms] by (auto simp: SCH_exact_def live_ids_def)

theorem aps_no_job_lost_witness:
  "{#''j''#} = mset (pending_ids demo_sch1) + mset_set (dom (running demo_sch1)) + {#}"
proof -
  obtain m :: "(nat, unit, string) Process_Manager" and w where "reach (aps_init toy_api 4) (aps_step toy_api True True)
      ((demo_sch1, m, w), {#''j''#}, {#})"
    by (rule demo_reach)
  from aps_no_job_lost [OF this] show ?thesis by blast
qed

text \<open>
  C7: the state is well formed in every reachable state, whatever clients submit: the lanes are
  split one to three, every running job is filed under its own identifier and has a timer exactly
  when it runs on the fast lane, every handler of the process manager has a child filed under that
  child's identifier, and the estimator holds at most its capacity of samples, all positive.
\<close>

theorem aps_well_formed:
  assumes "reach (aps_init api lane) (aps_step api eager False) ((s, m, w), sub, ex)"
  shows "unat (fast_lane s) = unat lane div 4 \<and> unat (slow_lane s) = unat lane - unat lane div 4 \<and>
    (\<forall>i rj. running s i = Some rj \<longrightarrow>
       job_id (rj_spec rj) = i \<and> (rj_timer rj \<noteq> None \<longleftrightarrow> rj_lane rj = FAST)) \<and>
    (\<forall>pid h. pm_handlers m pid = Some h \<longrightarrow> (\<exists>c. h_proc h = Some c \<and> api_id api c = pid)) \<and>
    length (p90_samples (p90_estimator s)) \<le> 1000 \<and>
    (\<forall>d \<in> set (p90_samples (p90_estimator s)). 0 < d)"
proof -
  have "SCH_inv s" "PM_inv api m" "total_lane s = lane"
    using aps.reach_inv [OF assms] by (simp_all add: manager_ok_def)
  then show ?thesis
    by (auto simp: SCH_inv_defs PM_inv_def P90_inv_def P90_default_capacity_def)
qed

theorem aps_well_formed_witness:
  "rj_timer (the (running demo_sch1 ''j'')) \<noteq> None \<longleftrightarrow> rj_lane (the (running demo_sch1 ''j'')) = FAST"
proof -
  obtain m :: "(nat, unit, string) Process_Manager" and w where "reach (aps_init toy_api 4) (aps_step toy_api True False)
      ((demo_sch1, m, w), {#''j''#}, {#})"
    by (rule demo_reach)
  from aps_well_formed [OF this] show ?thesis by (simp add: demo_sch1_def)
qed

section \<open>No undefined behaviour\<close>

lemma schedule_defined:
  "pm_ioc m \<Longrightarrow> \<exists>r. Scheduler_schedule api eager now pj (s, m, w) = Inr r"
  using PM_spawn_defined [of m api eager "job_opts (pj_spec pj)" None None "Some (job_id (pj_spec pj))" w]
  by (auto simp: Scheduler_schedule_def Let_def split: prod.splits)

text \<open>
  C10: in every reachable state each handler of the scheduler is defined: a loop iteration, an exit
  callback and a timeout for any identifier never pop an empty queue, never pop an empty sample
  window and never dereference a null process handler.
\<close>

theorem aps_handlers_defined:
  assumes "reach (aps_init api lane) (aps_step api eager False) ((s, m, w), sub, ex)"
  shows "(\<exists>r. Scheduler_tick api eager now (s, m, w) = Inr r)
    \<and> (\<exists>s'. Scheduler_handle_exit now i code s = Inr s')
    \<and> (\<exists>r. Scheduler_handle_timeout api i (s, m, w) = Inr r)"
proof -
  have inv: "SCH_inv s" "manager_ok api m" using aps.reach_inv [OF assms] by simp_all
  show ?thesis
    using ok_service.tick_defined [OF inv(2)] handle_exit_defined [OF inv(1)]
      ok_service.handle_timeout_defined [OF inv(2)]
    by metis
qed

theorem aps_handlers_defined_witness:
  "\<exists>s'. Scheduler_handle_exit 7 ''j'' 0 demo_sch1 = Inr s'"
proof -
  obtain m :: "(nat, unit, string) Process_Manager" and w where
    "reach (aps_init toy_api 4) (aps_step toy_api True False) ((demo_sch1, m, w), {#''j''#}, {#})"
    by (rule demo_reach)
  from aps_handlers_defined [OF this, of 7 "''j''" 0] show ?thesis by blast
qed

section \<open>Handlers, branch by branch\<close>

text \<open>
  What an exit callback does in a reachable state, on every branch. For an unknown identifier
  nothing changes. Otherwise the job leaves the table and exactly its own lane gets one slot back;
  if the status says it exited, it is on record (unless the identifier was already recorded) with
  its start time, end time and status, and its duration enters the estimator; if it was killed or
  stopped, nothing is recorded.
\<close>

lemma handle_exit_behaviour:
  assumes "reach (aps_init api lane) (aps_step api eager False) ((s, m, w), sub, ex)"
    and "Scheduler_handle_exit now i code s = Inr s'"
  shows "case running s i of
      None \<Rightarrow> s' = s
    | Some rj \<Rightarrow>
        running s' = (running s)(i := None) \<and> sch_pq s' = sch_pq s \<and>
        unat (lane_counter (rj_lane rj) s') + 1 = unat (lane_counter (rj_lane rj) s) \<and>
        (\<forall>l. l \<noteq> rj_lane rj \<longrightarrow> lane_counter l s' = lane_counter l s) \<and>
        (if WIFEXITED code then
           Finished_Storage_find i (sch_storage s') =
             (if sink (sch_storage s) i = None then finish_job rj now code
              else Finished_Storage_find i (sch_storage s)) \<and>
           P90_Estimator_add (duration_cast_seconds (now - rj_start_time rj)) (p90_estimator s) =
             Some (p90_estimator s')
         else sch_storage s' = sch_storage s \<and> p90_estimator s' = p90_estimator s)"
proof (cases "running s i")
  case None
  then show ?thesis using assms(2) by (simp add: handle_exit_eq)
next
  case (Some rj)
  have inv: "SCH_inv s" using aps.reach_inv [OF assms(1)] by simp
  have i: "job_id (rj_spec rj) = i" using inv Some by (simp add: SCH_inv_defs)
  obtain st e where s': "s' = release_job i rj (s\<lparr>sch_storage := st, p90_estimator := e\<rparr>)"
    and e: "WIFEXITED code \<Longrightarrow>
        st = Finished_Storage_store (finish_job rj now code) (sch_storage s) \<and>
        P90_Estimator_add (duration_cast_seconds (now - rj_start_time rj)) (p90_estimator s) = Some e"
      "\<not> WIFEXITED code \<Longrightarrow> st = sch_storage s \<and> e = p90_estimator s"
  proof (cases "WIFEXITED code")
    case True
    then show thesis using assms(2) Some that by (auto simp: handle_exit_eq split: option.splits)
  next
    case False
    then show thesis
      using assms(2) Some that [where st = "sch_storage s" and e = "p90_estimator s"] by (simp add: handle_exit_eq)
  qed
  have "unat (lane_counter (rj_lane rj) s) - 1 + 1 = unat (lane_counter (rj_lane rj) s)"
    using release_counter(2) [OF inv Some] by simp
  moreover have "unat (lane_counter (rj_lane rj) s') = unat (lane_counter (rj_lane rj) s) - 1"
    using unat_dec_pos [OF release_counter(2) [OF inv Some]]
    by (cases "rj_lane rj") (simp_all add: s' release_job_simps)
  moreover have "\<forall>l. l \<noteq> rj_lane rj \<longrightarrow> lane_counter l s' = lane_counter l s"
    by (cases "rj_lane rj") (simp_all add: s' release_job_simps all_Lane)
  moreover have "Finished_Storage_find i (Finished_Storage_store (finish_job rj now code) (sch_storage s)) =
      (if sink (sch_storage s) i = None then finish_job rj now code
       else Finished_Storage_find i (sch_storage s))"
    using storage.find_store_fresh [of "sch_storage s" "finish_job rj now code"]
      storage.find_store_known [of "sch_storage s" "finish_job rj now code"]
    by (auto simp: finish_job_def i Finished_Storage_find_def [of _ "sch_storage s"])
  ultimately show ?thesis using Some e s' by simp
qed

text \<open>
  C11: what a timeout does in a reachable state: an unknown identifier is ignored; otherwise the
  child is no longer owned by the process manager, the job goes to the back of the queue marked
  for the slow lane, leaves the table and frees one slot of the lane it held; a job whose timer is
  armed always held a fast slot.
\<close>

theorem handle_timeout_behaviour:
  assumes "reach (aps_init api lane) (aps_step api eager False) ((s, m, w), sub, ex)"
    and "Scheduler_handle_timeout api i (s, m, w) = Inr (s', m', w')"
  shows "case running s i of
      None \<Rightarrow> s' = s \<and> m' = m \<and> w' = w
    | Some rj \<Rightarrow>
        running s' = (running s)(i := None) \<and>
        q_deque (sch_pq s') = q_deque (sch_pq s) @ [\<lparr>pj_spec = rj_spec rj, pj_lane = SLOW\<rparr>] \<and>
        pm_handlers m' = (pm_handlers m)(rj_pid rj := None) \<and>
        unat (lane_counter (rj_lane rj) s') + 1 = unat (lane_counter (rj_lane rj) s) \<and>
        (rj_timer rj \<noteq> None \<longleftrightarrow> rj_lane rj = FAST)"
proof (cases "running s i")
  case None
  then show ?thesis using assms(2) by (simp add: handle_timeout_eq)
next
  case (Some rj)
  have inv: "SCH_inv s" "manager_ok api m" using aps.reach_inv [OF assms(1)] by simp_all
  have "rj_timer rj \<noteq> None \<longleftrightarrow> rj_lane rj = FAST"
    using inv Some unfolding SCH_inv_def running_wf_def by blast
  moreover have "pm_handlers m' = (pm_handlers m)(rj_pid rj := None)"
    using assms(2) Some inv(2) PM_terminate_defined [of api m "rj_pid rj" w]
    by (auto simp: handle_timeout_eq and_then_Inr manager_ok_def)
  moreover have "s' = (release_job i rj s)\<lparr>sch_pq := Pending_Q_push (requeue_job rj) (sch_pq s)\<rparr>"
    using assms(2) Some by (auto simp: handle_timeout_eq and_then_Inr)
  ultimately show ?thesis
    using Some release_counter(1) [OF inv(1) Some, of "rj_lane rj"] release_counter(2) [OF inv(1) Some]
    by (simp add: requeue_job_def)
qed

theorem handle_timeout_behaviour_witness:
  "\<exists>(m :: (nat, unit, string) Process_Manager) w s' m' w'.
     Scheduler_handle_timeout toy_api ''j'' (demo_sch1, m, w) = Inr (s', m', w') \<and>
     running s' ''j'' = None \<and> map pj_lane (q_deque (sch_pq s')) = [SLOW]"
proof -
  obtain m :: "(nat, unit, string) Process_Manager" and w where
    r: "reach (aps_init toy_api 4) (aps_step toy_api True False) ((demo_sch1, m, w), {#''j''#}, {#})"
    by (rule demo_reach)
  have "manager_ok toy_api m" using aps.reach_inv [OF r] by simp
  then obtain s' m' w' where t: "Scheduler_handle_timeout toy_api ''j'' (demo_sch1, m, w) = Inr (s', m', w')"
    using ok_service.handle_timeout_defined [of toy_api m "''j''" demo_sch1 w] by auto
  from handle_timeout_behaviour [OF r t]
  have "running s' ''j'' = None \<and> map pj_lane (q_deque (sch_pq s')) = [SLOW]"
    by (simp add: demo_sch1_def demo_sch_def)
  then have "Scheduler_handle_timeout toy_api ''j'' (demo_sch1, m, w) = Inr (s', m', w') \<and>
     running s' ''j'' = None \<and> map pj_lane (q_deque (sch_pq s')) = [SLOW]"
    using t by blast
  then show ?thesis by (intro exI)
qed

section \<open>The timeout\<close>

lemma ceiling_three_halves: "\<lceil>rat_of_int p * p90_multiplier\<rceil> = (3 * p + 1) div 2"
proof -
  define x where "x = (3 * p + 1) div 2"
  have "2 * x = 3 * p \<or> 2 * x = 3 * p + 1" unfolding x_def by presburger
  then have "rat_of_int (2 * x) = rat_of_int (3 * p) \<or> rat_of_int (2 * x) = rat_of_int (3 * p + 1)"
    by presburger
  then have "2 * rat_of_int x = 3 * rat_of_int p \<or> 2 * rat_of_int x = 3 * rat_of_int p + 1"
    by simp
  then have "\<lceil>rat_of_int p * p90_multiplier\<rceil> = x"
    by (intro ceiling_unique) (auto simp: p90_multiplier_def)
  then show ?thesis by (simp add: x_def)
qed

text \<open>
  The exit callback carries the identifier of the job only, not the child. When the callback of a
  child that was killed by a timeout arrives after the job was started again, it is taken for the
  exit of the new child: the job is no longer running for the scheduler, its lane is given back
  while its child lives, and when that child exits its result is dropped.
\<close>

lemma stale_exit_loses_result:
  assumes "running s i = Some rj" "\<not> WIFEXITED killed"
  obtains s' where "Scheduler_handle_exit now i killed s = Inr s'" "running s' i = None"
    "sch_storage s' = sch_storage s" "\<And>later code. Scheduler_handle_exit later i code s' = Inr s'"
proof -
  have e: "Scheduler_handle_exit now i killed s = Inr (release_job i rj s)"
    using assms by (simp add: handle_exit_eq)
  show thesis using that [OF e] by (simp add: release_job_simps handle_exit_eq)
qed

text \<open>
  A job that timed out is requeued for the slow lane, which has no timer. When the slow lane is full
  it is put on the fast lane all the same, where it gets a timer and can be killed again.
\<close>

lemma requeued_job_gets_timer:
  assumes "\<not> running_slow s < slow_lane s" "running s (job_id (rj_spec rj)) = None"
    and "Scheduler_schedule api eager now (requeue_job rj) (s, m, w) = Inr (s', m', w')"
  obtains rj' where "running s' (job_id (rj_spec rj)) = Some rj'" "rj_lane rj' = FAST"
    "rj_timer rj' = Some (Scheduler_compute_timeout s)"
proof -
  have "Scheduler_take_lane (requeue_job rj) s = (FAST, s\<lparr>running_fast := running_fast s + 1\<rparr>)"
    using assms(1) by (simp add: Scheduler_take_lane_def requeue_job_def)
  moreover have "Scheduler_compute_timeout (s\<lparr>running_fast := n\<rparr>) = Scheduler_compute_timeout s" for n
    by (simp add: Scheduler_compute_timeout_def Let_def)
  ultimately show thesis
    using assms(2,3) that
    by (auto simp: Scheduler_schedule_def Let_def and_then_Inr start_job_def requeue_job_def)
qed

text \<open>
  C12: in every reachable state the timeout given to a fast job is the default while fewer than 15
  samples are known, and afterwards one and a half times the 90th percentile rounded up, which
  is then a positive number of seconds.
\<close>

theorem compute_timeout_value:
  assumes "reach (aps_init api lane) (aps_step api eager False) ((s, m, w), sub, ex)"
  shows "Scheduler_compute_timeout s =
      (if length (p90_samples (p90_estimator s)) < 15 then default_timeout s
       else (3 * P90_Estimator_compute (p90_estimator s) + 1) div 2)
    \<and> (15 \<le> length (p90_samples (p90_estimator s)) \<longrightarrow>
         0 < P90_Estimator_compute (p90_estimator s)
         \<and> P90_Estimator_compute (p90_estimator s) < Scheduler_compute_timeout s)"
proof -
  let ?e = "p90_estimator s" let ?n = "length (p90_samples ?e)"
  have inv: "SCH_inv s" using aps.reach_inv [OF assms] by simp
  then have p: "P90_inv ?e" and n: "?n \<le> 1000"
    by (auto simp: SCH_inv_def P90_inv_def P90_default_capacity_def)
  have size: "P90_Estimator_size ?e < p90_min_samples \<longleftrightarrow> ?n < 15"
    using n by (simp add: P90_Estimator_size_def p90_min_samples_def word_less_nat_alt unat_of_nat)
  have pos: "0 < P90_Estimator_compute ?e" if "15 \<le> ?n"
    using that n by (intro P90_compute_pos [OF p]) auto
  have val: "Scheduler_compute_timeout s =
      (if ?n < 15 then default_timeout s else (3 * P90_Estimator_compute ?e + 1) div 2)"
    using pos by (cases "?n < 15")
      (simp_all add: Scheduler_compute_timeout_def size Let_def ceiling_three_halves)
  show ?thesis using val pos by auto
qed

theorem compute_timeout_value_witness: "Scheduler_compute_timeout demo_sch1 = 30"
proof -
  obtain m :: "(nat, unit, string) Process_Manager" and w where
    "reach (aps_init toy_api 4) (aps_step toy_api True False) ((demo_sch1, m, w), {#''j''#}, {#})"
    by (rule demo_reach)
  from compute_timeout_value [OF this] show ?thesis
    by (simp add: demo_sch1_def demo_sch_def P90_Estimator_new_def)
qed

section \<open>Construction and lane choice\<close>

text \<open>
  The constructor succeeds exactly when the event loop, the queue and the storage are there
  and at least four lanes are asked for; a quarter of the lanes is then fast, the rest slow, both
  lanes are non-empty and add up to the total, and nothing is running.
\<close>

lemma Scheduler_new_outcome:
  "(case Scheduler_new ioc pq st lane of
      Inl err \<Rightarrow> err = Runtime_Error [] \<and> \<not> (ioc \<and> pq \<noteq> None \<and> st \<noteq> None \<and> 4 \<le> unat lane)
    | Inr s \<Rightarrow> ioc \<and> pq = Some (sch_pq s) \<and> st = Some (sch_storage s) \<and> 4 \<le> unat lane
        \<and> unat (fast_lane s) = unat lane div 4 \<and> 0 < unat (fast_lane s)
        \<and> unat (fast_lane s) + unat (slow_lane s) = unat lane
        \<and> unat (fast_lane s) < unat (slow_lane s)
        \<and> running s = Map.empty \<and> running_fast s = 0 \<and> running_slow s = 0)"
proof -
  have d: "unat (lane div 4) = unat lane div 4" by (simp add: unat_div)
  then have "lane div 4 \<le> lane" by (simp add: word_le_nat_alt)
  then have sl: "unat (lane - lane div 4) = unat lane - unat lane div 4"
    by (simp add: unat_sub d)
  show ?thesis
    using d sl
    by (auto simp: Scheduler_new_def word_less_nat_alt not_less split: option.splits)
qed

text \<open>
  A job is schedulable exactly when some lane is free, whichever lane it asks for: the test
  that lets a slow job borrow only the first half of the fast lane has no effect. In particular a
  slow job is let onto the last fast slot.
\<close>

lemma schedulable_any_free_lane:
  "(Scheduler_schedulable pj s \<longleftrightarrow> running_fast s + running_slow s < total_lane s)
   \<and> Scheduler_schedulable (demo_job ''x'' SLOW) (demo_sch\<lparr>running_slow := 3\<rparr>)
   \<and> \<not> running_slow (demo_sch\<lparr>running_slow := 3\<rparr>) < slow_lane demo_sch
   \<and> \<not> running_fast (demo_sch\<lparr>running_slow := 3\<rparr>) < fast_lane demo_sch div 2"
  by (simp add: schedulable_iff) (simp add: demo_sch_def)

section \<open>Lanes that are never given back\<close>

lemma release_sum:
  assumes "SCH_inv s" "running s i = Some rj"
  shows "unat (running_fast (release_job i rj s)) + unat (running_slow (release_job i rj s)) + 1
    = unat (running_fast s) + unat (running_slow s)"
  using release_counter(1) [OF assms, of FAST] release_counter(1) [OF assms, of SLOW]
    release_counter(2) [OF assms]
  by (cases "rj_lane rj") (simp_all)

lemma schedule_sum:
  assumes "SCH_inv s" "Scheduler_schedulable pj s"
    and "Scheduler_schedule api eager now pj (s, m, w) = Inr (s', m', w')"
  shows "unat (running_fast s') + unat (running_slow s')
    = unat (running_fast s) + unat (running_slow s) + 1"
proof -
  obtain l where
    "\<forall>k. unat (lane_counter k s') = unat (lane_counter k s) + (if k = l then 1 else 0)"
    by (rule schedule_effect [OF assms]) (rule that)
  then show ?thesis by (cases l) (simp_all add: all_Lane)
qed


lemma demo_sch1_inv: "SCH_inv demo_sch1"
proof -
  obtain m :: "(nat, unit, string) Process_Manager" and w where
    r: "reach (aps_init toy_api 4) (aps_step toy_api True False) ((demo_sch1, m, w), {#''j''#}, {#})"
    by (rule demo_reach)
  then show ?thesis using aps.reach_inv [OF r] by simp
qed


text \<open>
  A job whose child cannot be started is entered as running all the same, with process
  identifier \<open>-1\<close>, and occupies a lane; no child exists whose exit would ever free it, and on
  the slow lane there is no timer either.
\<close>

lemma schedule_failed_spawn:
  assumes "SCH_inv s" "Scheduler_schedulable pj s" "pm_ioc m"
    and "running s (job_id (pj_spec pj)) = None"
    and "api_child api (job_opts (pj_spec pj)) (interactive (job_opts (pj_spec pj)))
           (Some (job_id (pj_spec pj))) w = (None, w1)"
  shows "\<exists>s' rj. Scheduler_schedule api eager now pj (s, m, w) = Inr (s', m, w1)
    \<and> running s' (job_id (pj_spec pj)) = Some rj \<and> rj_pid rj = - 1
    \<and> (rj_timer rj = None \<longleftrightarrow> rj_lane rj = SLOW)
    \<and> unat (running_fast s') + unat (running_slow s')
        = unat (running_fast s) + unat (running_slow s) + 1"
proof -
  let ?i = "job_id (pj_spec pj)"
  have sp: "Process_Manager_spawn api eager (job_opts (pj_spec pj)) None None (Some ?i) m w
      = Inr (- 1, m, w1)"
    using assms(3,5)
    by (simp add: Process_Manager_spawn_def Process_Manager_make_handler_def
        Process_Handler_spawn_def Process_Handler_dtor_def Process_Handler_new_def
        Process_Handler_exit_callback_def Let_def)
  obtain s' m' w' where s': "Scheduler_schedule api eager now pj (s, m, w) = Inr (s', m', w')"
    using schedule_defined [OF assms(3), of api eager now pj s w] by auto
  obtain l t pid where e: "Process_Manager_spawn api eager (job_opts (pj_spec pj)) None None
      (Some ?i) m w = Inr (pid, m', w')"
    "running s' = map_emplace ?i (start_job pj l pid now t) (running s)" "t \<noteq> None \<longleftrightarrow> l = FAST"
    by (rule schedule_effect [OF assms(1,2) s']) (rule that)
  have "running s' ?i = Some (start_job pj l (- 1) now t)" "m' = m" "w' = w1"
    using e(1,2) sp assms(4) by simp_all
  then show ?thesis
    using s' e(3) schedule_sum [OF assms(1,2) s']
    by (auto simp: start_job_def Lane_cases_iff)
qed

section \<open>Progress\<close>

text \<open>Consecutive loop iterations at the given clock readings.\<close>

fun run_ticks ::
  "('c, string, 'w) process_api \<Rightarrow> bool \<Rightarrow> int list \<Rightarrow> ('c, 'l, 'w) sched_state \<Rightarrow>
   Undefined + ('c, 'l, 'w) sched_state" where
  "run_ticks api eager [] st = Inr st"
| "run_ticks api eager (now # ns) st =
     and_then (Scheduler_tick api eager now st) (run_ticks api eager ns)"

lemma schedule_flags:
  "Scheduler_schedule api eager now pj (s, m, w) = Inr (s', m', w') \<Longrightarrow>
   sch_stop s' = sch_stop s \<and> sch_loops s' = sch_loops s"
  by (auto simp: Scheduler_schedule_def Scheduler_take_lane_def and_then_Inr Let_def
      split: prod.splits Lane.splits if_splits)

text \<open>One iteration with a waiting job and a free lane starts the job at the head of the queue.\<close>

lemma schedulable_room:
  assumes "SCH_exact s" "card (dom (running s)) < unat (total_lane s)"
  shows "Scheduler_schedulable pj s"
proof -
  have l: "lanes_ok s" "within_lanes s" "finite (dom (running s))"
    using assms(1) by (simp_all add: SCH_exact_def SCH_inv_defs)
  have "card (dom (running s)) = unat (running_fast s) + unat (running_slow s)"
    using assms(1) lane_jobs_sum [OF l(3)] by (simp add: SCH_exact_def all_Lane)
  then show ?thesis using assms(2) by (simp add: schedulable_unat l)
qed

lemma schedule_front:
  assumes "SCH_exact s" "pending_ids s = i # is" "q_deque (sch_pq s) = pj # q_deque q'"
    and "Scheduler_schedulable pj s"
    and "Scheduler_schedule api eager now pj (s\<lparr>sch_pq := q'\<rparr>, m, w) = Inr (s1, m', w')"
  shows "pending_ids s1 = is" "dom (running s1) = insert i (dom (running s))" "i \<notin> dom (running s)"
proof -
  let ?s = "s\<lparr>sch_pq := q'\<rparr>"
  have q: "pending_ids ?s = is" "job_id (pj_spec pj) = i"
    using assms(2,3) by (simp_all add: pending_ids_def)
  show ni: "i \<notin> dom (running s)" using assms(1,2) by (auto simp: SCH_exact_def)
  have e: "SCH_exact ?s"
    using assms(1,2) q(1) by (auto simp: SCH_exact_def all_Lane lane_jobs_def)
  have sch: "Scheduler_schedulable pj ?s" using assms(4) by simp
  have "job_id (pj_spec pj) \<notin> set (pending_ids ?s)" using assms(1,2) q by (auto simp: SCH_exact_def)
  moreover have "running ?s (job_id (pj_spec pj)) = None" using ni q(2) by (simp add: domIff)
  ultimately have "sch_pq s1 = q'" "dom (running s1) = insert i (dom (running s))"
    using schedule_exact(2,3) [OF e sch _ _ assms(5)] q(2) by auto
  then show "pending_ids s1 = is" "dom (running s1) = insert i (dom (running s))"
    using q(1) by (simp_all add: pending_ids_def)
qed

lemma tick_schedules_front:
  assumes "SCH_exact s" "manager_ok api m" "\<not> sch_stop s" "0 < sch_loops s"
    and "pending_ids s = i # is" "card (dom (running s)) < unat (total_lane s)"
  obtains s' m' w' where "Scheduler_tick api eager now (s, m, w) = Inr (s', m', w')"
    "SCH_exact s'" "manager_ok api m'" "\<not> sch_stop s'" "0 < sch_loops s'"
    "pending_ids s' = is" "dom (running s') = insert i (dom (running s))" "i \<notin> dom (running s)"
    "total_lane s' = total_lane s"
proof -
  let ?s = "s\<lparr>sch_loops := sch_loops s - 1\<rparr>"
  have inv: "SCH_inv s" "SCH_exact ?s"
    using assms(1) by (simp add: SCH_exact_def) (use assms(1) in simp)
  have ids: "pending_ids ?s = i # is" using assms(5) by (simp add: pending_ids_def)
  obtain s' m' w' where t: "Scheduler_tick api eager now (s, m, w) = Inr (s', m', w')"
    using assms(2) by (rule ok_service.tick_defined)
  then have r: "Scheduler_run_loop api eager now (?s, m, w) = Inr (s', m', w')"
    by (simp add: Scheduler_tick_def)
  have ex': "SCH_exact s'" using run_loop_exact [OF inv(2) r] by simp
  have ok': "manager_ok api m'" "total_lane s' = total_lane s"
    using tick_inv [OF inv(1) assms(2) t] by simp_all
  from r show thesis
  proof (cases rule: run_loop_cases)
    case (scheduled pj q' s1)
    note sf = schedule_front [OF inv(2) ids scheduled(2,3,4)]
    have "pending_ids s' = is" using scheduled(5) sf(1) by (simp add: pending_ids_def)
    moreover have "dom (running s') = insert i (dom (running s))" "i \<notin> dom (running s)"
      using sf(2,3) scheduled(5) by simp_all
    moreover have "\<not> sch_stop s'" "0 < sch_loops s'"
      using scheduled(1,5) schedule_flags [OF scheduled(4)] by simp_all
    ultimately show thesis using t ex' ok' by (intro that)
  next
    case stopped
    then show thesis using assms(3) by simp
  next
    case idle
    then have "q_deque (sch_pq s) = []"
      using schedulable_room [OF assms(1,6)] by (cases "q_deque (sch_pq s)") auto
    then show thesis using assms(5) by (simp add: pending_ids_def)
  qed
qed

lemma run_ticks_progress:
  assumes "SCH_exact s" "manager_ok api m" "\<not> sch_stop s" "0 < sch_loops s"
    and "length ns \<le> length (pending_ids s)"
    and "card (dom (running s)) + length ns \<le> unat (total_lane s)"
  shows "\<exists>s' m' w'. run_ticks api eager ns (s, m, w) = Inr (s', m', w')
    \<and> pending_ids s' = drop (length ns) (pending_ids s)
    \<and> dom (running s') = dom (running s) \<union> set (take (length ns) (pending_ids s))"
  using assms
proof (induction ns arbitrary: s m w)
  case Nil
  then show ?case by simp
next
  case (Cons now ns)
  then obtain i "is" where p: "pending_ids s = i # is" by (cases "pending_ids s") auto
  have c: "card (dom (running s)) < unat (total_lane s)" using Cons.prems(6) by simp
  obtain s1 m1 w1 where t: "Scheduler_tick api eager now (s, m, w) = Inr (s1, m1, w1)"
    and 1: "SCH_exact s1" "manager_ok api m1" "\<not> sch_stop s1" "0 < sch_loops s1"
    "pending_ids s1 = is" "dom (running s1) = insert i (dom (running s))" "i \<notin> dom (running s)"
    "total_lane s1 = total_lane s"
    by (rule tick_schedules_front [OF Cons.prems(1-4) p c])
  have "finite (dom (running s))" using Cons.prems(1) by (simp add: SCH_exact_def SCH_inv_defs)
  then have "card (dom (running s1)) = Suc (card (dom (running s)))" using 1(6,7) by simp
  then have "card (dom (running s1)) + length ns \<le> unat (total_lane s1)"
    using Cons.prems(6) 1(8) by simp
  moreover have "length ns \<le> length (pending_ids s1)" using Cons.prems(5) p 1(5) by simp
  ultimately obtain s' m' w' where "run_ticks api eager ns (s1, m1, w1) = Inr (s', m', w')"
    "pending_ids s' = drop (length ns) is"
    "dom (running s') = insert i (dom (running s)) \<union> set (take (length ns) is)"
    using Cons.IH [OF 1(1-4), of w1] 1(5,6) by auto
  then show ?case using t p by auto
qed

text \<open>
  Progress and first-in first-out order. From a reachable state (fresh submissions) in which
  the loop is active and not stopped, \<open>n\<close> iterations with \<open>n\<close> free lanes and \<open>n\<close> waiting jobs
  start exactly the \<open>n\<close> jobs at the head of the queue and leave the others waiting in order.
\<close>

lemma aps_progress:
  assumes "reach (aps_init api lane) (aps_step api eager True) ((s, m, w), sub, ex)"
    and "\<not> sch_stop s" "0 < sch_loops s"
    and "length ns \<le> length (pending_ids s)"
    and "card (dom (running s)) + length ns \<le> unat lane"
  shows "\<exists>s' m' w'. run_ticks api eager ns (s, m, w) = Inr (s', m', w')
    \<and> pending_ids s' = drop (length ns) (pending_ids s)
    \<and> dom (running s') = dom (running s) \<union> set (take (length ns) (pending_ids s))"
proof -
  have "SCH_exact s" "manager_ok api m" using aps_fresh.reach_inv [OF assms(1)] by simp_all
  moreover have "total_lane s = lane" using aps.reach_inv [OF assms(1)] by simp
  ultimately show ?thesis using assms(2-5) by (intro run_ticks_progress) simp_all
qed


end
