(* ===== verification/Aps_Interleaving.thy ===== *)
theory Aps_Interleaving
  imports Aps_Properties
begin

text \<open>
  \<^verbatim>\<open>process/aps_scheduler.cpp\<close>, \<open>run_loop\<close> while other threads use the scheduler. The loop runs on
  the thread of the \<open>io_context\<close> and calls \<open>empty()\<close>, \<open>front()\<close> and \<open>pop()\<close> of the shared queue
  one after the other, each a step of its own; between any two of them a client thread may push a
  job or call \<open>run\<close>. The theory shows that such an execution is the atomic \<open>Scheduler_run_loop\<close>
  of theory \<open>Aps_Scheduler\<close>, with the clients' calls moved before or after it. \<open>front()\<close> takes no
  lock in the source; it is taken to read the deque at one moment here.
\<close>

section \<open>The loop in small steps\<close>

datatype loop_pc =
    L_Stop | L_Empty | L_Front | L_Pop | L_Schedule Pending_Job | L_Timer | L_Done

definition Scheduler_arm_loop :: "('c, 'l, 'w) sched_state \<Rightarrow> ('c, 'l, 'w) sched_state" where
  "Scheduler_arm_loop st = (case st of (s, m, w) \<Rightarrow> (s\<lparr>sch_loops := Suc (sch_loops s)\<rparr>, m, w))"

fun loop_micro ::
  "('c, string, 'w) process_api \<Rightarrow> bool \<Rightarrow> int \<Rightarrow> loop_pc \<Rightarrow> ('c, 'l, 'w) sched_state \<Rightarrow>
     Undefined + (loop_pc \<times> ('c, 'l, 'w) sched_state)" where
  "loop_micro api eager now L_Stop (s, m, w) =
     Inr (if sch_stop s then L_Done else L_Empty, (s, m, w))"
| "loop_micro api eager now L_Empty (s, m, w) =
     Inr (if Pending_Q_empty (sch_pq s) then L_Timer else L_Front, (s, m, w))"
| "loop_micro api eager now L_Front (s, m, w) =
     (case Pending_Q_front (sch_pq s) of
        None \<Rightarrow> Inl Empty_Container
      | Some pj \<Rightarrow> Inr (if Scheduler_schedulable pj s then L_Pop else L_Timer, (s, m, w)))"
| "loop_micro api eager now L_Pop (s, m, w) =
     (case Pending_Q_pop (sch_pq s) of
        None \<Rightarrow> Inl Empty_Container
      | Some (pj, q) \<Rightarrow> Inr (L_Schedule pj, (s\<lparr>sch_pq := q\<rparr>, m, w)))"
| "loop_micro api eager now (L_Schedule pj) st =
     and_then (Scheduler_schedule api eager now pj st) (\<lambda>st. Inr (L_Timer, st))"
| "loop_micro api eager now L_Timer st = Inr (L_Done, Scheduler_arm_loop st)"
| "loop_micro api eager now L_Done st = Inr (L_Done, st)"

text \<open>What the other threads do meanwhile.\<close>

datatype client_call = Client_Push Pending_Job | Client_Run

fun client_step :: "client_call \<Rightarrow> ('c, 'l, 'w) sched_state \<Rightarrow> ('c, 'l, 'w) sched_state" where
  "client_step (Client_Push pj) (s, m, w) = (s\<lparr>sch_pq := Pending_Q_push pj (sch_pq s)\<rparr>, m, w)"
| "client_step Client_Run (s, m, w) = (Scheduler_run s, m, w)"

definition client_steps :: "client_call list \<Rightarrow> ('c, 'l, 'w) sched_state \<Rightarrow> ('c, 'l, 'w) sched_state" where
  "client_steps cs st = fold client_step cs st"

text \<open>An execution: \<open>None\<close> is a step of the loop, \<open>Some c\<close> a client's call.\<close>

fun loop_interleaved ::
  "('c, string, 'w) process_api \<Rightarrow> bool \<Rightarrow> int \<Rightarrow> client_call option list \<Rightarrow> loop_pc \<Rightarrow>
     ('c, 'l, 'w) sched_state \<Rightarrow> Undefined + (loop_pc \<times> ('c, 'l, 'w) sched_state)" where
  "loop_interleaved api eager now [] pc st = Inr (pc, st)"
| "loop_interleaved api eager now (None # ms) pc st =
     and_then (loop_micro api eager now pc st)
       (\<lambda>(pc, st). loop_interleaved api eager now ms pc st)"
| "loop_interleaved api eager now (Some c # ms) pc st =
     loop_interleaved api eager now ms pc (client_step c st)"

definition client_calls :: "client_call option list \<Rightarrow> client_call list" where
  "client_calls ms = map the (filter (\<lambda>m. m \<noteq> None) ms)"

definition loop_steps :: "client_call option list \<Rightarrow> nat" where
  "loop_steps ms = length (filter (\<lambda>m. m = None) ms)"

section \<open>What is left of the loop at each point\<close>

fun loop_rest ::
  "('c, string, 'w) process_api \<Rightarrow> bool \<Rightarrow> int \<Rightarrow> loop_pc \<Rightarrow> ('c, 'l, 'w) sched_state \<Rightarrow>
     Undefined + ('c, 'l, 'w) sched_state" where
  "loop_rest api eager now L_Stop st = Scheduler_run_loop api eager now st"
| "loop_rest api eager now L_Empty st = Scheduler_run_loop api eager now st"
| "loop_rest api eager now L_Front (s, m, w) =
     (case q_deque (sch_pq s) of
        [] \<Rightarrow> Inl Empty_Container
      | pj # q \<Rightarrow>
          if Scheduler_schedulable pj s
          then and_then (Scheduler_schedule api eager now pj (s\<lparr>sch_pq := (sch_pq s)\<lparr>q_deque := q\<rparr>\<rparr>, m, w))
                 (\<lambda>st. Inr (Scheduler_arm_loop st))
          else Inr (Scheduler_arm_loop (s, m, w)))"
| "loop_rest api eager now L_Pop (s, m, w) =
     (case q_deque (sch_pq s) of
        [] \<Rightarrow> Inl Empty_Container
      | pj # q \<Rightarrow>
          and_then (Scheduler_schedule api eager now pj (s\<lparr>sch_pq := (sch_pq s)\<lparr>q_deque := q\<rparr>\<rparr>, m, w))
            (\<lambda>st. Inr (Scheduler_arm_loop st)))"
| "loop_rest api eager now (L_Schedule pj) st =
     and_then (Scheduler_schedule api eager now pj st) (\<lambda>st. Inr (Scheduler_arm_loop st))"
| "loop_rest api eager now L_Timer st = Inr (Scheduler_arm_loop st)"
| "loop_rest api eager now L_Done st = Inr st"

text \<open>Only \<open>run_loop\<close> takes jobs out: between its check and its \<open>pop\<close> the queue stays non-empty.\<close>

fun loop_ok :: "loop_pc \<Rightarrow> ('c, 'l, 'w) sched_state \<Rightarrow> bool" where
  "loop_ok pc (s, m, w) \<longleftrightarrow>
     pm_ioc m \<and> (pc = L_Front \<or> pc = L_Pop \<longrightarrow> q_deque (sch_pq s) \<noteq> []) \<and>
     (pc = L_Empty \<longrightarrow> \<not> sch_stop s)"

fun past_check :: "loop_pc \<Rightarrow> bool" where
  "past_check L_Stop = False"
| "past_check L_Empty = False"
| "past_check _ = True"

section \<open>Each step leaves the rest\<close>

lemma schedule_frame:
  assumes "Scheduler_schedule api eager now pj (s, m, w) = Inr (s', m', w')"
  shows "sch_pq s' = sch_pq s" "sch_stop s' = sch_stop s" "pm_ioc m' = pm_ioc m"
  using assms
  by (auto simp: Scheduler_schedule_def Scheduler_take_lane_def Let_def and_then_Inr PM_spawn_ioc
      split: Lane.splits if_splits)

lemma schedule_ioc_defined:
  "pm_ioc m \<Longrightarrow> \<exists>st. Scheduler_schedule api eager now pj (s, m, w) = Inr st"
  using PM_spawn_defined [of m api eager "job_opts (pj_spec pj)" None None
      "Some (job_id (pj_spec pj))" w]
  by (auto simp: Scheduler_schedule_def Let_def split: prod.splits)

lemma run_loop_arm:
  "(\<lambda>(s, m, w). Inr (s\<lparr>sch_loops := Suc (sch_loops s)\<rparr>, m, w)) = (\<lambda>st. Inr (Scheduler_arm_loop st))"
  by (simp add: fun_eq_iff Scheduler_arm_loop_def)

lemma loop_micro_rest:
  "loop_ok pc st \<Longrightarrow> loop_micro api eager now pc st = Inr (pc', st') \<Longrightarrow>
     loop_rest api eager now pc st = loop_rest api eager now pc' st'"
  by (cases st; cases pc)
    (auto simp: Scheduler_run_loop_def run_loop_arm Pending_Q_defs and_then_Inr
      split: list.splits if_splits)

lemma loop_micro_ok:
  assumes "loop_ok pc st"
  shows "\<exists>pc' st'. loop_micro api eager now pc st = Inr (pc', st') \<and> loop_ok pc' st'"
proof (cases st)
  case (fields s m w)
  show ?thesis
  proof (cases pc)
    case (L_Schedule pj)
    moreover have "pm_ioc m" using assms fields by simp
    then obtain s' m' w' where "Scheduler_schedule api eager now pj (s, m, w) = Inr (s', m', w')"
      using schedule_ioc_defined by (metis prod_cases3)
    ultimately show ?thesis using assms fields schedule_frame(3) by fastforce
  qed (use assms fields in \<open>auto simp: Pending_Q_defs Scheduler_arm_loop_def split: list.splits\<close>)
qed

text \<open>Every step brings the loop closer to its end.\<close>

fun loop_left :: "loop_pc \<Rightarrow> nat" where
  "loop_left L_Stop = 6"
| "loop_left L_Empty = 5"
| "loop_left L_Front = 4"
| "loop_left L_Pop = 3"
| "loop_left (L_Schedule pj) = 2"
| "loop_left L_Timer = 1"
| "loop_left L_Done = 0"

lemma loop_micro_left:
  "loop_micro api eager now pc st = Inr (pc', st') \<Longrightarrow> loop_left pc' \<le> loop_left pc - 1"
  by (cases st; cases pc) (auto simp: and_then_Inr split: option.splits if_splits)

lemma loop_micro_past:
  "loop_micro api eager now pc st = Inr (pc', st') \<Longrightarrow> past_check pc \<Longrightarrow> past_check pc'"
  by (cases st; cases pc) (auto simp: and_then_Inr split: option.splits if_splits)

section \<open>Client calls commute with what follows the check\<close>

lemma schedule_client:
  "Scheduler_schedule api eager now pj (client_step c st) =
     and_then (Scheduler_schedule api eager now pj st) (\<lambda>st. Inr (client_step c st))"
proof (cases st)
  case (fields s m w)
  have tl: "Scheduler_take_lane pj (s\<lparr>sch_pq := q\<rparr>) = apsnd (\<lambda>s. s\<lparr>sch_pq := q\<rparr>) (Scheduler_take_lane pj s)"
    "Scheduler_take_lane pj (s\<lparr>sch_loops := n\<rparr>) = apsnd (\<lambda>s. s\<lparr>sch_loops := n\<rparr>) (Scheduler_take_lane pj s)"
    for q n by (simp_all add: Scheduler_take_lane_def split: Lane.splits)
  have ct: "Scheduler_compute_timeout (r\<lparr>sch_pq := q\<rparr>) = Scheduler_compute_timeout r"
    "Scheduler_compute_timeout (r\<lparr>sch_loops := n\<rparr>) = Scheduler_compute_timeout r" for r q n
    by (simp_all add: Scheduler_compute_timeout_def cong: if_cong)
  obtain l s1 where l: "Scheduler_take_lane pj s = (l, s1)" by (cases "Scheduler_take_lane pj s")
  then have s1: "sch_pq s1 = sch_pq s" "sch_loops s1 = sch_loops s"
    by (auto simp: Scheduler_take_lane_def split: Lane.splits if_splits)
  show ?thesis
    by (cases c; cases "Process_Manager_spawn api eager (job_opts (pj_spec pj)) None None
            (Some (job_id (pj_spec pj))) m w")
      (auto simp: fields Scheduler_schedule_def Scheduler_run_def Let_def tl ct l s1 and_then_def)
qed

lemma arm_client: "Scheduler_arm_loop (client_step c st) = client_step c (Scheduler_arm_loop st)"
  by (cases st; cases c) (simp_all add: Scheduler_arm_loop_def Scheduler_run_def)

lemma and_then_assoc: "and_then (and_then m f) g = and_then m (\<lambda>x. and_then (f x) g)"
  by (cases m) simp_all

lemma loop_ok_client: "loop_ok pc st \<Longrightarrow> loop_ok pc (client_step c st)"
  by (cases st; cases c) (auto simp: Scheduler_run_def)

lemma schedulable_client:
  "Scheduler_schedulable pj (fst (client_step c (s, m, w))) = Scheduler_schedulable pj s"
  by (cases c) (simp_all add: Scheduler_schedulable_def Scheduler_run_def)

text \<open>A call behind a non-empty queue leaves its front and can be moved behind the \<open>pop\<close>.\<close>

lemma client_behind_front:
  assumes "q_deque (sch_pq s) = pj # q"
  obtains s' q' where "client_step c (s, m, w) = (s', m, w)" "q_deque (sch_pq s') = pj # q'"
    "(s'\<lparr>sch_pq := (sch_pq s')\<lparr>q_deque := q'\<rparr>\<rparr>, m, w) =
       client_step c (s\<lparr>sch_pq := (sch_pq s)\<lparr>q_deque := q\<rparr>\<rparr>, m, w)"
proof (cases c)
  case (Client_Push pk)
  then show thesis
    using that [of "s\<lparr>sch_pq := Pending_Q_push pk (sch_pq s)\<rparr>" "q @ [pk]"] assms
    by (simp add: Pending_Q_push_def)
next
  case Client_Run
  then show thesis using that [of "Scheduler_run s" q] assms by (simp add: Scheduler_run_def)
qed

lemma loop_rest_client:
  assumes "loop_ok pc st" "past_check pc"
  shows "loop_rest api eager now pc (client_step c st) =
     and_then (loop_rest api eager now pc st) (\<lambda>st. Inr (client_step c st))"
proof (cases "pc = L_Front \<or> pc = L_Pop")
  case True
  obtain s m w where st: "st = (s, m, w)" by (cases st)
  with assms(1) True obtain pj q where q: "q_deque (sch_pq s) = pj # q"
    by (cases "q_deque (sch_pq s)") auto
  from client_behind_front [OF q, of c m w] obtain s' q' where
    s': "client_step c (s, m, w) = (s', m, w)" "q_deque (sch_pq s') = pj # q'"
      "(s'\<lparr>sch_pq := (sch_pq s')\<lparr>q_deque := q'\<rparr>\<rparr>, m, w) =
         client_step c (s\<lparr>sch_pq := (sch_pq s)\<lparr>q_deque := q\<rparr>\<rparr>, m, w)" by blast
  have "Scheduler_schedulable pj s' = Scheduler_schedulable pj s"
    using schedulable_client [of pj c s m w] s'(1) by simp
  then show ?thesis
    using True q s' arm_client [of c "(s, m, w)"]
    by (auto simp: st schedule_client and_then_assoc arm_client)
next
  case False
  then show ?thesis
    using assms(2) by (cases pc) (simp_all add: schedule_client and_then_assoc arm_client)
qed

section \<open>Whole executions\<close>

lemma client_calls_simps [simp]:
  "client_calls [] = []"
  "client_calls (None # ms) = client_calls ms"
  "client_calls (Some c # ms) = c # client_calls ms"
  by (simp_all add: client_calls_def)

lemma loop_steps_simps [simp]:
  "loop_steps [] = 0"
  "loop_steps (None # ms) = Suc (loop_steps ms)"
  "loop_steps (Some c # ms) = loop_steps ms"
  by (simp_all add: loop_steps_def)

lemma client_steps_simps [simp]:
  "client_steps [] st = st"
  "client_steps (c # cs) st = client_steps cs (client_step c st)"
  by (simp_all add: client_steps_def)

lemma interleaved_total:
  "loop_ok pc st \<Longrightarrow>
     \<exists>pc' st'. loop_interleaved api eager now ms pc st = Inr (pc', st') \<and>
       loop_left pc' \<le> loop_left pc - loop_steps ms"
proof (induction api eager now ms pc st rule: loop_interleaved.induct)
  case (2 api eager now ms pc st)
  from loop_micro_ok [OF 2(2)] obtain pc1 st1 where
    m: "loop_micro api eager now pc st = Inr (pc1, st1)" "loop_ok pc1 st1" by blast
  from 2(1) [OF m(1) refl m(2)] loop_micro_left [OF m(1)] m(1) show ?case by force
qed (auto simp: loop_ok_client)

lemma interleaved_late:
  "loop_ok pc st \<Longrightarrow> past_check pc \<Longrightarrow>
     loop_interleaved api eager now ms pc st = Inr (L_Done, st') \<Longrightarrow>
     \<exists>st1. loop_rest api eager now pc st = Inr st1 \<and> st' = client_steps (client_calls ms) st1"
proof (induction api eager now ms pc st rule: loop_interleaved.induct)
  case (1 api eager now pc st)
  then have "loop_rest api eager now pc st = Inr st'" by simp
  then show ?case by (intro exI [of _ st']) simp
next
  case (2 api eager now ms pc st)
  from loop_micro_ok [OF 2(2)] obtain pc1 st1 where
    m: "loop_micro api eager now pc st = Inr (pc1, st1)" "loop_ok pc1 st1" by blast
  from 2(4) m(1) have "loop_interleaved api eager now ms pc1 st1 = Inr (L_Done, st')" by simp
  from 2(1) [OF m(1) refl m(2) loop_micro_past [OF m(1) 2(3)] this]
  show ?case using loop_micro_rest [OF 2(2) m(1)] by simp
next
  case (3 api eager now c ms pc st)
  from 3(4) have "loop_interleaved api eager now ms pc (client_step c st) = Inr (L_Done, st')" by simp
  from 3(1) [OF loop_ok_client [OF 3(2)] 3(3) this] show ?case
    using loop_rest_client [OF 3(2,3)] by (auto simp: and_then_Inr)
qed

text \<open>Before the check a call simply comes first: the loop has not looked at the queue yet.\<close>

definition linearised ::
  "('c, string, 'w) process_api \<Rightarrow> bool \<Rightarrow> int \<Rightarrow> client_call list \<Rightarrow> ('c, 'l, 'w) sched_state \<Rightarrow>
     ('c, 'l, 'w) sched_state \<Rightarrow> bool" where
  "linearised api eager now cs st st' \<longleftrightarrow>
     (\<exists>early late st1. cs = early @ late \<and>
        Scheduler_run_loop api eager now (client_steps early st) = Inr st1 \<and>
        st' = client_steps late st1)"

lemma linearised_Cons: "linearised api eager now cs (client_step c st) st' \<Longrightarrow> linearised api eager now (c # cs) st st'"
  unfolding linearised_def by (metis append_Cons client_steps_simps(2))

lemma linearised_now:
  "Scheduler_run_loop api eager now st = Inr st1 \<Longrightarrow> linearised api eager now cs st (client_steps cs st1)"
  unfolding linearised_def by (metis append_Nil client_steps_simps(1))

lemma early_rest:
  "\<not> past_check pc \<Longrightarrow> loop_rest api eager now pc st = Scheduler_run_loop api eager now st"
  by (cases pc) simp_all

lemma interleaved_early:
  "loop_ok pc st \<Longrightarrow> \<not> past_check pc \<Longrightarrow>
     loop_interleaved api eager now ms pc st = Inr (L_Done, st') \<Longrightarrow>
     linearised api eager now (client_calls ms) st st'"
proof (induction api eager now ms pc st rule: loop_interleaved.induct)
  case (2 api eager now ms pc st)
  from loop_micro_ok [OF 2(2)] obtain pc1 st1 where
    m: "loop_micro api eager now pc st = Inr (pc1, st1)" "loop_ok pc1 st1" by blast
  from 2(4) m(1) have r: "loop_interleaved api eager now ms pc1 st1 = Inr (L_Done, st')" by simp
  have st1: "st1 = st" using m(1) 2(3) by (cases st; cases pc) auto
  show ?case
  proof (cases "past_check pc1")
    case True
    from interleaved_late [OF m(2) True r] obtain st2 where
      "loop_rest api eager now pc1 st1 = Inr st2" "st' = client_steps (client_calls ms) st2" by blast
    moreover have "Scheduler_run_loop api eager now st = loop_rest api eager now pc1 st1"
      using loop_micro_rest [OF 2(2) m(1)] early_rest [OF 2(3)] by metis
    ultimately show ?thesis using linearised_now [of api eager now st st2 "client_calls ms"] by simp
  next
    case False
    from 2(1) [OF m(1) refl m(2) False r] show ?thesis by (simp add: st1)
  qed
next
  case (3 api eager now c ms pc st)
  then show ?case by (auto intro: linearised_Cons loop_ok_client)
qed auto

text \<open>
  C9: \<open>run_loop\<close> is linearisable. However the pushes and \<open>run\<close> calls of other threads fall between
  its reads of the queue, the loop finishes, never reads an empty queue, and the outcome is that of
  the whole loop run at once after some of the calls and before the others, which keep their order.
\<close>

theorem run_loop_linearisable:
  assumes "pm_ioc m" and "6 \<le> loop_steps ms"
  shows "\<exists>early late st1 st'. client_calls ms = early @ late \<and>
    Scheduler_run_loop api eager now (client_steps early (s, m, w)) = Inr st1 \<and>
    st' = client_steps late st1 \<and>
    loop_interleaved api eager now ms L_Stop (s, m, w) = Inr (L_Done, st')"
proof -
  have ok: "loop_ok L_Stop (s, m, w)" using assms(1) by simp
  from interleaved_total [OF this, of api eager now ms] obtain pc' st' where
    r: "loop_interleaved api eager now ms L_Stop (s, m, w) = Inr (pc', st')" "loop_left pc' = 0"
    using assms(2) by auto
  then have "pc' = L_Done" by (cases pc') simp_all
  with r interleaved_early [OF ok, of api eager now ms st'] show ?thesis
    by (auto simp: linearised_def)
qed

text \<open>
  The loop may rely on its check only as long as it is the only one to take jobs out. When another
  scheduler works on the same queue and takes the last job after the check, \<open>front\<close> is called on an
  empty container.
\<close>

lemma two_consumers_race:
  assumes "\<not> sch_stop s" "q_deque (sch_pq s) = [pj]" "Pending_Q_pop (sch_pq s) = Some (pj', q')"
  shows "loop_interleaved api eager now [None, None] L_Stop (s, m, w) = Inr (L_Front, s, m, w)"
    and "loop_micro api eager now L_Front (s\<lparr>sch_pq := q'\<rparr>, m, w) = Inl Empty_Container"
  using assms by (auto simp: Pending_Q_defs)

text \<open>A push that falls between the check and the read of the front, with a job already queued.\<close>

definition demo_moves :: "client_call option list" where
  "demo_moves =
     [Some (Client_Push (demo_job ''j'' FAST)), None, None, Some (Client_Push (demo_job ''k'' SLOW)),
      None, None, None, None]"

theorem run_loop_linearisable_witness:
  "\<exists>early late st1. [Client_Push (demo_job ''j'' FAST), Client_Push (demo_job ''k'' SLOW)] = early @ late \<and>
     Scheduler_run_loop toy_api False 0 (client_steps early (demo_sch, demo_pm, [])) = Inr st1 \<and>
     loop_interleaved toy_api False 0 demo_moves L_Stop (demo_sch, demo_pm, []) =
       Inr (L_Done, client_steps late st1)"
proof -
  have "pm_ioc demo_pm" "6 \<le> loop_steps demo_moves" by (simp_all add: demo_pm_def demo_moves_def)
  from run_loop_linearisable [OF this, of toy_api False 0 demo_sch "[]"] obtain early late st1 where
    "client_calls demo_moves = early @ late"
    "Scheduler_run_loop toy_api False 0 (client_steps early (demo_sch, demo_pm, [])) = Inr st1"
    "loop_interleaved toy_api False 0 demo_moves L_Stop (demo_sch, demo_pm, []) =
       Inr (L_Done, client_steps late st1)" by blast
  then show ?thesis by (intro exI [of _ early] exI [of _ late] exI [of _ st1]) (simp add: demo_moves_def)
qed

end
