(* ===== verification/Aps_Results.thy ===== *)
theory Aps_Results
  imports Aps_Properties
begin

text \<open>
  The way of a job through the scheduler, from the head of the queue to its entry in the storage of
  finished jobs, across arbitrary events in between; what the storage holds in general; that every
  reachable state can be run to the end of all jobs; and what the exit callback takes its argument for.
\<close>

section \<open>What one step does to a running job and to the storage\<close>

text \<open>The events that are about the job \<open>i\<close>: its exit callback and the expiry of its timer.\<close>

fun concerns :: "string \<Rightarrow> Aps_Event \<Rightarrow> bool" where
  "concerns i (Ev_Exit now j code) = (j = i)"
| "concerns i (Ev_Timeout j) = (j = i)"
| "concerns i _ = False"

lemma schedule_keeps:
  assumes "Scheduler_schedule api eager now pj (s, m, w) = Inr (s', m', w')"
  shows "running s \<subseteq>\<^sub>m running s'" "sch_storage s' = sch_storage s"
  using assms
  by (auto simp: Scheduler_schedule_def Scheduler_take_lane_def and_then_Inr Let_def map_le_def
      map_emplace_lookup split: prod.splits Lane.splits if_splits)

lemma run_loop_keeps:
  assumes "Scheduler_run_loop api eager now (s, m, w) = Inr (s', m', w')"
  shows "running s \<subseteq>\<^sub>m running s' \<and> sch_storage s' = sch_storage s"
  using assms
proof (cases rule: run_loop_cases)
  case (scheduled pj q' s1)
  then show ?thesis using schedule_keeps [OF scheduled(4)] by simp
qed simp_all

lemma handle_exit_storage:
  assumes "Scheduler_handle_exit now i code s = Inr s'"
  shows "sch_storage s' = sch_storage s \<or>
    (\<exists>rj. running s i = Some rj \<and> WIFEXITED code \<and>
       sch_storage s' = Finished_Storage_store (finish_job rj now code) (sch_storage s))"
  using assms by (auto simp: handle_exit_eq split: option.splits if_splits)

lemma step_storage:
  assumes "aps_step api eager fresh ((s, m, w), sub, ex) e ((s', m', w'), sub', ex')"
  shows "sch_storage s' = sch_storage s \<and> ex \<subseteq># ex' \<or>
    (\<exists>now i code rj. running s i = Some rj \<and> WIFEXITED code \<and> ex' = add_mset i ex \<and>
       sch_storage s' = Finished_Storage_store (finish_job rj now code) (sch_storage s))"
  using assms
proof (cases rule: aps_step.cases)
  case (exit now i code)
  then show ?thesis using handle_exit_storage [of now i code s s'] by auto
qed (auto simp: Scheduler_run_def Scheduler_stop_def Scheduler_tick_def handle_timeout_eq and_then_Inr
    dest!: run_loop_keeps split: option.splits)

lemma step_sink_mono:
  assumes "aps_step api eager fresh ((s, m, w), sub, ex) e ((s', m', w'), sub', ex')"
  shows "sink (sch_storage s) \<subseteq>\<^sub>m sink (sch_storage s')"
  using step_storage [OF assms] storage.store_recorded_mono by auto

lemma steps_sink_mono:
  assumes "steps (aps_step api eager fresh) st es st'"
  shows "sink (sch_storage (fst (fst st))) \<subseteq>\<^sub>m sink (sch_storage (fst (fst st')))"
  using assms
proof (induction rule: steps.induct)
  case (steps_Cons st e t es u)
  obtain s m w sub ex s' m' w' sub' ex'
    where "st = ((s, m, w), sub, ex)" "t = ((s', m', w'), sub', ex')" by (metis prod.exhaust)
  then show ?case
    using step_sink_mono [of api eager fresh s m w sub ex e s' m' w' sub' ex'] steps_Cons
    by (auto intro: map_le_trans)
qed simp

text \<open>A step that does not concern a running job leaves its entry alone and records nothing for it.\<close>

lemma step_keeps_job:
  assumes "aps_step api eager fresh ((s, m, w), sub, ex) e ((s', m', w'), sub', ex')"
    and "\<not> concerns i e" "running s i = Some rj" "SCH_inv s"
  shows "running s' i = Some rj \<and> sink (sch_storage s') i = sink (sch_storage s) i"
  using assms(1)
proof (cases rule: aps_step.cases)
  case (tick now)
  then show ?thesis
    using assms(3) run_loop_keeps [of api eager now "s\<lparr>sch_loops := sch_loops s - 1\<rparr>" m w s' m' w']
    by (auto simp: Scheduler_tick_def map_le_def dest!: bspec [of _ _ i])
next
  case (exit now j code)
  have "j \<noteq> i" using exit assms(2) by simp
  moreover have "job_id (rj_spec r) = j" if "running s j = Some r" for r
    using assms(4) that by (simp add: SCH_inv_defs)
  ultimately show ?thesis
    using exit assms(3)
    by (auto simp: handle_exit_eq storage.store_recorded finish_job_def
        split: option.splits if_splits)
next
  case (timeout j)
  then show ?thesis
    using assms(2,3) by (auto simp: handle_timeout_eq and_then_Inr split: option.splits)
qed (use assms(3) in \<open>auto simp: Scheduler_run_def Scheduler_stop_def\<close>)

lemma steps_keep_job:
  assumes "steps (aps_step api eager fresh) st es st'" "\<forall>e \<in> set es. \<not> concerns i e"
    and "running (fst (fst st)) i = Some rj" "SYS_inv api lane st"
  shows "running (fst (fst st')) i = Some rj \<and>
    sink (sch_storage (fst (fst st'))) i = sink (sch_storage (fst (fst st))) i \<and> SYS_inv api lane st'"
  using assms
proof (induction rule: steps.induct)
  case (steps_Cons st e t es u)
  obtain s m w sub ex s' m' w' sub' ex'
    where st: "st = ((s, m, w), sub, ex)" "t = ((s', m', w'), sub', ex')" by (metis prod.exhaust)
  have "running s' i = Some rj \<and> sink (sch_storage s') i = sink (sch_storage s) i"
    by (rule step_keeps_job [OF steps_Cons.hyps(1) [unfolded st]])
      (use steps_Cons.prems st in auto)
  moreover have "SYS_inv api lane t" by (rule SYS_inv_step [OF steps_Cons.prems(3) steps_Cons.hyps(1)])
  ultimately show ?case using steps_Cons st by auto
qed simp

section \<open>What is on record\<close>

fun results_ok :: "('c, string, 'w) process_api \<Rightarrow> ('c, 'l, 'w) aps_state \<Rightarrow> bool" where
  "results_ok api ((s, m, w), sub, ex) \<longleftrightarrow> SYS_exact api ((s, m, w), sub, ex) \<and>
     (\<forall>i fj. sink (sch_storage s) i = Some fj \<longrightarrow>
        job_id (fj_spec fj) = i \<and> WIFEXITED (fj_exit_code fj) \<and> i \<in># ex)"

lemma results_ok_step:
  assumes "results_ok api st" "aps_step api eager True st e st'"
  shows "results_ok api st'"
proof -
  obtain s m w sub ex s' m' w' sub' ex'
    where st: "st = ((s, m, w), sub, ex)" "st' = ((s', m', w'), sub', ex')" by (metis prod.exhaust)
  have ok: "SYS_exact api ((s, m, w), sub, ex)" using assms(1) by (simp add: st)
  have "SYS_exact api st'" by (rule SYS_exact_step [OF _ assms(2)]) (use ok st in simp)
  moreover have "job_id (rj_spec rj) = i" if "running s i = Some rj" for i rj
    using ok that by (simp add: SCH_exact_def SCH_inv_defs)
  moreover have "i \<in># ex'" if "i \<in># ex" "ex \<subseteq># ex'" for i using that by (rule mset_subset_eqD [rotated])
  ultimately show ?thesis
    using step_storage [OF assms(2) [unfolded st]] assms(1)
    by (auto simp: st storage.store_recorded finish_job_def split: if_splits)
qed

lemma results_ok_init: "aps_init api lane st \<Longrightarrow> results_ok api st"
proof -
  assume i: "aps_init api lane st"
  obtain s m w sub ex where st: "st = ((s, m, w), sub, ex)" by (metis prod.exhaust)
  have "sink (sch_storage s) = Map.empty"
    using i by (auto simp: st Scheduler_new_def Finished_Storage_new_def split: if_splits)
  then show "results_ok api st" using SYS_exact_init [OF i] by (simp add: st)
qed

interpretation aps_results: invariant_system "aps_init api lane" "aps_step api eager True"
  "results_ok api" for api lane eager
  by unfold_locales (auto intro: results_ok_init results_ok_step)


section \<open>The way of a job\<close>

lemma tick_starts_head:
  assumes "SCH_exact s" "\<not> sch_stop s" "q_deque (sch_pq s) = pj # rest"
    and "card (dom (running s)) < unat (total_lane s)"
    and "Scheduler_tick api eager now (s, m, w) = Inr (s1, m1, w1)"
  shows "\<exists>l pid t. running s1 (job_id (pj_spec pj)) = Some (start_job pj l pid now t)"
    and "sch_storage s1 = sch_storage s"
proof -
  let ?s = "s\<lparr>sch_loops := sch_loops s - 1\<rparr>"
  have ex: "SCH_exact ?s" using assms(1) by simp
  have sch: "Scheduler_schedulable pj s" by (rule schedulable_room [OF assms(1,4)])
  have new: "running s (job_id (pj_spec pj)) = None"
    using assms(1,3) by (auto simp: SCH_exact_def pending_ids_def)
  have r: "Scheduler_run_loop api eager now (?s, m, w) = Inr (s1, m1, w1)"
    using assms(5) by (simp add: Scheduler_tick_def)
  show "sch_storage s1 = sch_storage s" using run_loop_keeps [OF r] by simp
  show "\<exists>l pid t. running s1 (job_id (pj_spec pj)) = Some (start_job pj l pid now t)"
    using r
  proof (cases rule: run_loop_cases)
    case (scheduled pj' q' s')
    have pj: "pj' = pj" using scheduled(2) assms(3) by simp
    have inv: "SCH_inv (?s\<lparr>sch_pq := q'\<rparr>)" using ex by (simp add: SCH_exact_def)
    have "Scheduler_schedulable pj' (?s\<lparr>sch_pq := q'\<rparr>)" using scheduled(3) by simp
    from inv this scheduled(4) obtain l pid t where
      "running s' = map_emplace (job_id (pj_spec pj')) (start_job pj' l pid now t) (running s)"
      by (rule schedule_effect) simp
    then show ?thesis using scheduled(5) new pj by (auto simp: map_emplace_lookup)
  qed (use assms(2,3) sch in simp_all)
qed

lemma stop_run:
  "steps (aps_step api eager fresh) ((s, m, w), sub, ex) [Ev_Stop]
     ((Scheduler_stop s, m, w), sub, ex)"
  by (rule steps_Cons, rule aps_step.stop, rule steps_Nil)

text \<open>
  C5: The way of a job. With fresh identifiers, take any reachable state in which the scheduler is
  not stopped, a job heads the queue, fewer jobs run than there are lanes and nothing is recorded
  under its identifier. The next loop iteration starts it; after any further events, none of them
  about this job, an exit callback that reports an exit puts the job on record with its own
  specification, the time of that iteration, the time of the callback and the reported status, and
  the job is no longer running.
\<close>

theorem aps_job_completes:
  assumes "reach (aps_init api lane) (aps_step api eager True) ((s, m, w), sub, ex)"
    and "\<not> sch_stop s" "q_deque (sch_pq s) = pj # rest" "i = job_id (pj_spec pj)"
    and "card (dom (running s)) < unat lane" "sink (sch_storage s) i = None"
    and "Scheduler_tick api eager now (s, m, w) = Inr (s1, m1, w1)" "0 < sch_loops s"
    and "steps (aps_step api eager True) ((s1, m1, w1), sub, ex) es ((s2, m2, w2), sub2, ex2)"
    and "\<forall>e \<in> set es. \<not> concerns i e"
    and "WIFEXITED code" "Scheduler_handle_exit later i code s2 = Inr s3"
  shows "Finished_Storage_find i (sch_storage s3) =
      \<lparr>fj_spec = pj_spec pj, fj_start_time = now, fj_end_time = later, fj_exit_code = code\<rparr> \<and>
    running s3 i = None"
proof -
  have inv: "SYS_inv api lane ((s, m, w), sub, ex)" "SCH_exact s"
    using aps_fresh.reach_inv [OF assms(1)] aps.reach_inv [OF assms(1)] by simp_all
  then have "total_lane s = lane" by simp
  from tick_starts_head [OF inv(2) assms(2,3) _ assms(7)] this assms(4,5) obtain l pid t where
    s1: "running s1 i = Some (start_job pj l pid now t)" "sch_storage s1 = sch_storage s" by auto
  have inv1: "SYS_inv api lane ((s1, m1, w1), sub, ex)"
    by (rule SYS_inv_step [OF inv(1) aps_step.tick [OF assms(8,7), of True]])
  have s2: "running s2 i = Some (start_job pj l pid now t)" "sink (sch_storage s2) i = None"
    using steps_keep_job [OF assms(9,10) _ inv1] s1 assms(6) by simp_all
  show ?thesis
    using assms(4,11,12) s2
    by (auto simp: handle_exit_eq Finished_Storage_find_store finish_job_def start_job_def
        split: option.splits)
qed

theorem aps_job_completes_witness:
  "\<exists>s3. Scheduler_handle_exit 7000000000 ''j'' 0 (Scheduler_stop demo_sch1) = Inr s3 \<and>
     fj_end_time (Finished_Storage_find ''j'' (sch_storage s3)) = 7000000000 \<and>
     fj_spec (Finished_Storage_find ''j'' (sch_storage s3)) = demo_spec ''j''"
proof -
  have inv: "SCH_inv (Scheduler_stop demo_sch1)"
    using demo_sch1_inv by (simp add: Scheduler_stop_def)
  obtain s3 where s3: "Scheduler_handle_exit 7000000000 ''j'' 0 (Scheduler_stop demo_sch1) = Inr s3"
    using handle_exit_defined [OF inv] by blast
  have st: "steps (aps_step toy_api True True) ((demo_sch1, demo_pm1, [5]), {#''j''#}, {#}) [Ev_Stop]
      ((Scheduler_stop demo_sch1, demo_pm1, [5]), {#''j''#}, {#})"
    by (rule stop_run)
  have f: "\<not> sch_stop demo_queued" "q_deque (sch_pq demo_queued) = demo_job ''j'' FAST # []"
    "''j'' = job_id (pj_spec (demo_job ''j'' FAST))" "card (dom (running demo_queued)) < unat (4 :: size_t)"
    "sink (sch_storage demo_queued) ''j'' = None" "0 < sch_loops demo_queued" "WIFEXITED 0"
    by (simp_all add: demo_queued_def demo_sch_def demo_job_def demo_spec_def Scheduler_run_def
        Pending_Q_defs Finished_Storage_new_def WIFEXITED_def WTERMSIG_def)
  from aps_job_completes [OF demo_reach_queued [of "aps_init toy_api 4", OF demo_init] f(1-5) demo_tick
      f(6) st _ f(7) s3] s3
  show ?thesis by (simp add: demo_job_def)
qed

text \<open>
  C6: The storage of finished jobs is sound and stable. With fresh submissions, every record in a
  reachable state is filed under the identifier of its job, reports a status of a normal exit, and
  belongs to a job that was submitted and whose exit was handled; and whatever happens later, the
  same record is found.
\<close>

theorem aps_results_sound:
  assumes "reach (aps_init api lane) (aps_step api eager True) ((s, m, w), sub, ex)"
    and "sink (sch_storage s) i = Some fj"
    and "steps (aps_step api eager True) ((s, m, w), sub, ex) es ((s', m', w'), sub', ex')"
  shows "job_id (fj_spec fj) = i \<and> WIFEXITED (fj_exit_code fj) \<and> i \<in># ex \<and> i \<in># sub \<and>
    Finished_Storage_find i (sch_storage s') = fj"
proof -
  have ok: "results_ok api ((s, m, w), sub, ex)" by (rule aps_results.reach_inv [OF assms(1)])
  have "sink (sch_storage s') i = Some fj"
    using steps_sink_mono [OF assms(3)] assms(2)
    by (auto simp: map_le_def dest!: bspec [of _ _ i])
  then show ?thesis using ok assms(2) by (auto simp: storage.find_recorded)
qed

theorem aps_results_sound_witness:
  "\<exists>s1 fj. Scheduler_handle_exit 7000000000 ''j'' 0 demo_sch1 = Inr s1 \<and>
     sink (sch_storage s1) ''j'' = Some fj \<and> job_id (fj_spec fj) = ''j'' \<and>
     Finished_Storage_find ''j'' (sch_storage (Scheduler_stop s1)) = fj"
proof -
  let ?I = "aps_init toy_api 4" and ?S = "aps_step toy_api True True"
  obtain s1 where s1: "Scheduler_handle_exit 7000000000 ''j'' 0 demo_sch1 = Inr s1"
    using handle_exit_defined [OF demo_sch1_inv] by blast
  have d: "running demo_sch1 ''j'' = Some (start_job (demo_job ''j'' FAST) FAST 5 0 (Some 30))"
    "sink (sch_storage demo_sch1) = Map.empty" "WIFEXITED 0"
    by (simp_all add: demo_sch1_def demo_sch_def Finished_Storage_new_def WIFEXITED_def WTERMSIG_def)
  have e: "?S ((demo_sch1, demo_pm1, [5]), {#''j''#}, {#}) (Ev_Exit 7000000000 ''j'' 0)
      ((s1, demo_pm1, [5]), {#''j''#}, {#''j''#})"
    using aps_step.exit [OF s1, of toy_api True True demo_pm1 "[5]" "{#''j''#}" "{#}"] d(1) by simp
  have "reach ?I ?S ((demo_sch1, demo_pm1, [5]), {#''j''#}, {#})"
    by (rule demo_reach_from) (rule demo_init)
  then have r: "reach ?I ?S ((s1, demo_pm1, [5]), {#''j''#}, {#''j''#})"
    by (rule reach_step) (rule e)
  obtain fj where fj: "sink (sch_storage s1) ''j'' = Some fj"
    using s1 d by (auto simp: handle_exit_eq storage.store_recorded finish_job_def start_job_def
        demo_job_def demo_spec_def split: option.splits)
  have "steps ?S ((s1, demo_pm1, [5]), {#''j''#}, {#''j''#}) [Ev_Stop]
      ((Scheduler_stop s1, demo_pm1, [5]), {#''j''#}, {#''j''#})"
    by (rule stop_run)
  from aps_results_sound [OF r fj this] s1 fj show ?thesis by blast
qed

section \<open>The scheduler is never stuck\<close>

text \<open>Loop iterations and children that exit with status 0.\<close>

fun advances :: "Aps_Event \<Rightarrow> bool" where
  "advances (Ev_Tick now) = True"
| "advances (Ev_Exit now i code) = (code = 0)"
| "advances _ = False"

lemma exit_step:
  assumes "SYS_exact api ((s, m, w), sub, ex)" "running s i = Some rj"
  obtains s1 where "aps_step api eager True ((s, m, w), sub, ex) (Ev_Exit now i 0)
      ((s1, m, w), sub, add_mset i ex)"
    "running s1 = (running s)(i := None)" "pending_ids s1 = pending_ids s"
    "sch_stop s1 = sch_stop s" "sch_loops s1 = sch_loops s" "sink (sch_storage s1) i \<noteq> None"
proof -
  have ex: "SCH_exact s" using assms(1) by simp
  then have inv: "SCH_inv s" and id: "job_id (rj_spec rj) = i"
    using assms(2) by (simp_all add: SCH_exact_def SCH_inv_defs)
  obtain s1 where s1: "Scheduler_handle_exit now i 0 s = Inr s1"
    using handle_exit_defined [OF inv] by blast
  have st: "aps_step api eager True ((s, m, w), sub, ex) (Ev_Exit now i 0)
      ((s1, m, w), sub, add_mset i ex)"
    using aps_step.exit [OF s1, of api eager True m w sub ex] assms(2) by simp
  have "WIFEXITED 0" by (simp add: WIFEXITED_def WTERMSIG_def)
  then have "sch_stop s1 = sch_stop s \<and> sch_loops s1 = sch_loops s \<and> sink (sch_storage s1) i \<noteq> None"
    using s1 assms(2) id
    by (auto simp: handle_exit_eq release_job_simps storage.store_recorded finish_job_def
        split: option.splits if_splits)
  moreover have "running s1 = (running s)(i := None)" "pending_ids s1 = pending_ids s"
    using handle_exit_exact(2,3) [OF ex s1] by (simp_all add: pending_ids_def)
  ultimately show thesis using st that by blast
qed

lemma tick_step:
  assumes "SYS_exact api ((s, m, w), sub, ex)" "\<not> sch_stop s" "0 < sch_loops s"
    and "running s = Map.empty" "pending_ids s = i # is"
  obtains s1 m1 w1 where "aps_step api eager True ((s, m, w), sub, ex) (Ev_Tick now)
      ((s1, m1, w1), sub, ex)"
    "dom (running s1) = {i}" "pending_ids s1 = is" "\<not> sch_stop s1" "0 < sch_loops s1"
proof -
  have ex: "SCH_exact s" "manager_ok api m" using assms(1) by simp_all
  then have room: "card (dom (running s)) < unat (total_lane s)"
    using assms(4) by (simp add: SCH_exact_def SCH_inv_defs)
  obtain s1 m1 w1 where "Scheduler_tick api eager now (s, m, w) = Inr (s1, m1, w1)"
    "\<not> sch_stop s1" "0 < sch_loops s1" "pending_ids s1 = is" "dom (running s1) = insert i (dom (running s))"
    by (rule tick_schedules_front [OF ex assms(2,3,5) room])
  then show thesis using assms(3,4) by (intro that) (auto intro: aps_step.tick)
qed

lemma can_finish:
  assumes "SYS_exact api ((s, m, w), sub, ex)" "\<not> sch_stop s" "0 < sch_loops s"
  shows "\<exists>es s' m' w' ex'. steps (aps_step api eager True) ((s, m, w), sub, ex) es
      ((s', m', w'), sub, ex') \<and> list_all advances es \<and> pending_ids s' = [] \<and>
    running s' = Map.empty \<and> (\<forall>i \<in> known_ids s. sink (sch_storage s') i \<noteq> None)"
  using assms
proof (induction "2 * length (pending_ids s) + card (dom (running s))" arbitrary: s m w ex
    rule: less_induct)
  case less
  have fin: "finite (dom (running s))"
    using less.prems(1) by (simp add: SCH_exact_def SCH_inv_defs)
  have go: ?case if st: "aps_step api eager True ((s, m, w), sub, ex) e ((s1, m1, w1), sub, ex1)"
      and a: "advances e" "\<not> sch_stop s1" "0 < sch_loops s1"
      and d: "2 * length (pending_ids s1) + card (dom (running s1)) <
        2 * length (pending_ids s) + card (dom (running s))"
      and k: "\<forall>i \<in> known_ids s - known_ids s1. sink (sch_storage s1) i \<noteq> None"
    for e s1 m1 w1 ex1
  proof -
    have "SYS_exact api ((s1, m1, w1), sub, ex1)" by (rule SYS_exact_step [OF less.prems(1) st])
    from less.hyps [OF d this a(2,3)] obtain es s' m' w' ex' where
      r: "steps (aps_step api eager True) ((s1, m1, w1), sub, ex1) es ((s', m', w'), sub, ex')"
      "list_all advances es" "pending_ids s' = []" "running s' = Map.empty"
      "\<forall>i \<in> known_ids s1. sink (sch_storage s') i \<noteq> None" by blast
    have "sink (sch_storage s1) \<subseteq>\<^sub>m sink (sch_storage s')" using steps_sink_mono [OF r(1)] by simp
    then have "sink (sch_storage s') i \<noteq> None" if "sink (sch_storage s1) i \<noteq> None" for i
      using that by (auto simp: map_le_def dest!: bspec [of _ _ i])
    then have "\<forall>i \<in> known_ids s. sink (sch_storage s') i \<noteq> None" using r(5) k by blast
    moreover have "steps (aps_step api eager True) ((s, m, w), sub, ex) (e # es) ((s', m', w'), sub, ex')"
      using st r(1) by (rule steps_Cons)
    moreover have "list_all advances (e # es)" using r(2) a(1) by simp
    ultimately show ?thesis using r(3,4) by blast
  qed
  show ?case
  proof (cases "running s = Map.empty")
    case False
    then obtain i rj where rj: "running s i = Some rj" by (meson not_None_eq ext)
    obtain s1 where s1: "aps_step api eager True ((s, m, w), sub, ex) (Ev_Exit 0 i 0)
        ((s1, m, w), sub, add_mset i ex)" "running s1 = (running s)(i := None)"
      "pending_ids s1 = pending_ids s" "sch_stop s1 = sch_stop s" "sch_loops s1 = sch_loops s"
      "sink (sch_storage s1) i \<noteq> None"
      by (rule exit_step [OF less.prems(1) rj])
    have "card (dom (running s) - {i}) < card (dom (running s))"
      using fin rj by (intro card_Diff1_less) auto
    then show ?thesis using s1 less.prems(2,3) by (intro go [OF s1(1)]) (auto simp: known_ids_def)
  next
    case None: True
    show ?thesis
    proof (cases "pending_ids s")
      case Nil
      then show ?thesis using None
        by (intro exI [of _ "[]"] exI [of _ s] exI [of _ m] exI [of _ w] exI [of _ ex])
          (auto simp: known_ids_def)
    next
      case (Cons i "is")
      obtain s1 m1 w1 where s1: "aps_step api eager True ((s, m, w), sub, ex) (Ev_Tick 0)
          ((s1, m1, w1), sub, ex)" "dom (running s1) = {i}" "pending_ids s1 = is"
        "\<not> sch_stop s1" "0 < sch_loops s1"
        by (rule tick_step [OF less.prems None Cons])
      then show ?thesis using None Cons by (intro go [OF s1(1)]) (auto simp: known_ids_def)
    qed
  qed
qed



section \<open>The argument of the exit callback\<close>

lemma WTERMSIG_low_bits: "WTERMSIG st = take_bit 7 st"
  by (simp add: WTERMSIG_def take_bit_eq_mask mask_eq_exp_minus_1)

lemma exit_value_status:
  assumes "n < 256"
  shows "WIFEXITED (of_nat n) \<longleftrightarrow> n mod 128 = 0" "WIFEXITED (push_bit 8 (of_nat n))"
proof -
  have "unat (of_nat n :: 32 word) = n" using assms by (simp add: unat_of_nat)
  then have "unat (WTERMSIG (of_nat n)) = n mod 128"
    by (simp add: WTERMSIG_low_bits unsigned_take_bit_eq take_bit_eq_mod unat_mod)
  then show "WIFEXITED (of_nat n) \<longleftrightarrow> n mod 128 = 0"
    by (simp add: WIFEXITED_def unat_eq_zero [symmetric])
  show "WIFEXITED (push_bit 8 (of_nat n))"
    by (simp add: WIFEXITED_def WTERMSIG_low_bits take_bit_push_bit)
qed

text \<open>
  C14: The exit callback applies the macros for wait statuses to its argument. Given the exit code
  itself, which is what \<open>bp::on_exit\<close> is documented to hand over, a job that exits with any code
  other than 0 or 128 is taken for one that a signal killed: it leaves the table, nothing is
  recorded and its duration is not sampled. Given the wait status of the same exit, it would have
  been recorded.
\<close>

theorem exit_code_taken_for_status:
  assumes "SCH_inv s" "running s i = Some rj" "n < 256"
  shows "\<exists>s1 s2. Scheduler_handle_exit now i (of_nat n) s = Inr s1 \<and>
    Scheduler_handle_exit now i (push_bit 8 (of_nat n)) s = Inr s2 \<and>
    running s1 i = None \<and> running s2 i = None \<and>
    (if n mod 128 = 0
     then sch_storage s1 = Finished_Storage_store (finish_job rj now (of_nat n)) (sch_storage s)
     else sch_storage s1 = sch_storage s \<and> p90_estimator s1 = p90_estimator s) \<and>
    sch_storage s2 =
      Finished_Storage_store (finish_job rj now (push_bit 8 (of_nat n))) (sch_storage s)"
proof -
  obtain s1 s2 where s: "Scheduler_handle_exit now i (of_nat n) s = Inr s1"
    "Scheduler_handle_exit now i (push_bit 8 (of_nat n)) s = Inr s2"
    using handle_exit_defined [OF assms(1)] by metis
  then show ?thesis
    using assms(2) exit_value_status [OF assms(3)]
    by (auto simp: handle_exit_eq split: option.splits)
qed

theorem exit_code_taken_for_status_witness:
  "\<exists>s1. Scheduler_handle_exit 7000000000 ''j'' (of_nat 1) demo_sch1 = Inr s1 \<and>
     running s1 ''j'' = None \<and> Finished_Storage_find ''j'' (sch_storage s1) = default_Finished_Job"
proof -
  have "running demo_sch1 ''j'' = Some (start_job (demo_job ''j'' FAST) FAST 5 0 (Some 30))"
    by (simp add: demo_sch1_def)
  from exit_code_taken_for_status [OF demo_sch1_inv this, of 1 7000000000] show ?thesis
    by (auto simp: demo_sch1_def demo_sch_def Finished_Storage_new_def Finished_Storage_find_def)
qed

end
