(* ===== verification/Aps_Board.thy ===== *)
theory Aps_Board
  imports Aps_Results
begin

text \<open>
  What the scheduler promises its clients, as an abstract specification: a board of jobs that are
  waiting, running or recorded, with a number of places. It knows nothing of lanes, timers, process
  identifiers, the process manager or the estimator. The scheduler of \<^verbatim>\<open>process/aps_scheduler.cpp\<close>
  refines it event by event.
\<close>

section \<open>The board\<close>

record board =
  b_halted :: bool
  b_places :: nat
  b_waiting :: "Pending_Job list"
  b_active :: "string \<rightharpoonup> Job_Specification \<times> int"
  b_results :: "string \<rightharpoonup> Finished_Job"

definition board_new :: "nat \<Rightarrow> board" where
  "board_new n = \<lparr>b_halted = False, b_places = n, b_waiting = [], b_active = Map.empty,
     b_results = Map.empty\<rparr>"

text \<open>
  A loop iteration starts the first waiting job exactly when the board is not halted and has a free
  place. An exit takes the job off the board and records the first result of its identifier, when
  the status is that of an exit. A timeout puts the job behind all waiting jobs, for the slow lane.
\<close>

fun board_next :: "Aps_Event \<Rightarrow> board \<Rightarrow> board" where
  "board_next (Ev_Submit pj) b = b\<lparr>b_waiting := b_waiting b @ [pj]\<rparr>"
| "board_next Ev_Run b = b"
| "board_next Ev_Stop b = b\<lparr>b_halted := True\<rparr>"
| "board_next (Ev_Tick now) b =
     (case b_waiting b of
        [] \<Rightarrow> b
      | pj # pjs \<Rightarrow>
          if \<not> b_halted b \<and> card (dom (b_active b)) < b_places b
          then b\<lparr>b_waiting := pjs,
                 b_active := (b_active b)(job_id (pj_spec pj) \<mapsto> (pj_spec pj, now))\<rparr>
          else b)"
| "board_next (Ev_Exit now i code) b =
     (case b_active b i of
        None \<Rightarrow> b
      | Some (spec, start) \<Rightarrow>
          b\<lparr>b_active := (b_active b)(i := None),
            b_results :=
              (if WIFEXITED code \<and> b_results b i = None
               then (b_results b)(i \<mapsto>
                 \<lparr>fj_spec = spec, fj_start_time = start, fj_end_time = now, fj_exit_code = code\<rparr>)
               else b_results b)\<rparr>)"
| "board_next (Ev_Timeout i) b =
     (case b_active b i of
        None \<Rightarrow> b
      | Some (spec, start) \<Rightarrow>
          b\<lparr>b_active := (b_active b)(i := None),
            b_waiting := b_waiting b @ [\<lparr>pj_spec = spec, pj_lane = SLOW\<rparr>]\<rparr>)"
| "board_next Ev_World b = b"

section \<open>What holds on the board\<close>

text \<open>
  Facts proved on the board alone; the refinement below carries them over to the scheduler. With a
  clock that does not run backwards, every record ends no earlier than it started, and no job that
  runs started after the last reading.
\<close>

fun event_time :: "Aps_Event \<Rightarrow> int option" where
  "event_time (Ev_Tick now) = Some now"
| "event_time (Ev_Exit now i code) = Some now"
| "event_time _ = None"

fun clock_ok :: "int \<Rightarrow> Aps_Event list \<Rightarrow> bool" where
  "clock_ok t [] = True"
| "clock_ok t (e # es) =
     (case event_time e of None \<Rightarrow> clock_ok t es | Some now \<Rightarrow> t \<le> now \<and> clock_ok now es)"

definition board_times :: "int \<Rightarrow> board \<Rightarrow> bool" where
  "board_times t b \<longleftrightarrow>
     (\<forall>i spec start. b_active b i = Some (spec, start) \<longrightarrow> start \<le> t) \<and>
     (\<forall>i fj. b_results b i = Some fj \<longrightarrow> fj_start_time fj \<le> fj_end_time fj)"

lemma board_times_mono: "board_times t b \<Longrightarrow> t \<le> t' \<Longrightarrow> board_times t' b"
  by (force simp: board_times_def)

lemma board_times_step:
  assumes "board_times t b" "case event_time e of None \<Rightarrow> t' = t | Some now \<Rightarrow> t \<le> now \<and> t' = now"
  shows "board_times t' (board_next e b)"
proof -
  have "board_times t' b" using assms by (auto intro: board_times_mono split: option.splits)
  then show ?thesis
    using assms(2) by (cases e) (auto simp: board_times_def split: list.splits option.splits)
qed

lemma board_times_run:
  "board_times t b \<Longrightarrow> clock_ok t es \<Longrightarrow> \<exists>t'. board_times t' (fold board_next es b)"
proof (induction es arbitrary: t b)
  case (Cons e es)
  let ?t = "case event_time e of None \<Rightarrow> t | Some now \<Rightarrow> now"
  have "board_times ?t (board_next e b)" "clock_ok ?t es"
    using Cons.prems by (auto intro!: board_times_step [of t] split: option.splits)
  from Cons.IH [OF this] show ?case by simp
qed auto

text \<open>No more jobs run than there are places.\<close>

definition board_room :: "board \<Rightarrow> bool" where
  "board_room b \<longleftrightarrow> finite (dom (b_active b)) \<and> card (dom (b_active b)) \<le> b_places b"

lemma board_room_run: "board_room b \<Longrightarrow> board_room (fold board_next es b)"
proof (induction es arbitrary: b)
  case (Cons e es)
  have "board_room (board_next e b)"
    using Cons.prems
    by (cases e)
      (auto simp: board_room_def card_insert_if split: list.splits option.splits
        intro: le_trans [OF card_Diff1_le])
  from Cons.IH [OF this] show ?case by simp
qed simp

section \<open>The scheduler seen as a board\<close>

definition board_of :: "Scheduler \<Rightarrow> board" where
  "board_of s =
     \<lparr>b_halted = sch_stop s, b_places = unat (total_lane s), b_waiting = q_deque (sch_pq s),
      b_active = (\<lambda>i. map_option (\<lambda>rj. (rj_spec rj, rj_start_time rj)) (running s i)),
      b_results = sink (sch_storage s)\<rparr>"

lemma dom_map_option_fun [simp]: "dom (\<lambda>i. map_option f (m i)) = dom m"
  by (auto simp: dom_def)

lemma board_erase:
  "(\<lambda>j. map_option f (((m :: 'a \<rightharpoonup> 'b)(i := None)) j)) = (\<lambda>j. map_option f (m j))(i := None)"
  by (simp add: fun_eq_iff)

lemma schedulable_places:
  assumes "SCH_exact s"
  shows "Scheduler_schedulable pj s \<longleftrightarrow> card (dom (running s)) < unat (total_lane s)"
proof -
  have l: "lanes_ok s" "within_lanes s" "finite (dom (running s))"
    using assms by (simp_all add: SCH_exact_def SCH_inv_defs)
  have "card (dom (running s)) = unat (running_fast s) + unat (running_slow s)"
    using assms lane_jobs_sum [OF l(3)] by (simp add: SCH_exact_def all_Lane)
  then show ?thesis by (simp add: schedulable_unat l)
qed

lemma release_flags [simp]:
  "sch_stop (release_job i rj s) = sch_stop s" "total_lane (release_job i rj s) = total_lane s"
  by (simp_all add: release_job_simps)

lemma board_exit:
  assumes "SCH_inv s" "Scheduler_handle_exit now i code s = Inr s'"
  shows "board_of s' = board_next (Ev_Exit now i code) (board_of s)"
proof (cases "running s i")
  case None
  with assms(2) show ?thesis by (simp add: handle_exit_eq board_of_def)
next
  case (Some rj)
  have "job_id (rj_spec rj) = i" using assms(1) Some by (simp add: SCH_inv_defs)
  with assms(2) Some show ?thesis
    by (auto simp: handle_exit_eq board_of_def board_erase
        storage.store_recorded finish_job_def split: option.splits if_splits)
qed

lemma board_timeout:
  assumes "Scheduler_handle_timeout api i (s, m, w) = Inr (s', m', w')"
  shows "board_of s' = board_next (Ev_Timeout i) (board_of s)"
  using assms
  by (auto simp: handle_timeout_eq board_of_def and_then_Inr board_erase
      requeue_job_def Pending_Q_push_def split: option.splits)

lemma board_tick:
  assumes "SCH_exact s" "Scheduler_tick api eager now (s, m, w) = Inr (s', m', w')"
  shows "board_of s' = board_next (Ev_Tick now) (board_of s)"
proof -
  let ?s = "s\<lparr>sch_loops := sch_loops s - 1\<rparr>"
  have ex: "SCH_exact ?s" using assms(1) by simp
  have r: "Scheduler_run_loop api eager now (?s, m, w) = Inr (s', m', w')"
    using assms(2) by (simp add: Scheduler_tick_def)
  note places = schedulable_places [OF assms(1)]
  from r show ?thesis
  proof (cases rule: run_loop_cases)
    case stopped
    then show ?thesis by (auto simp: board_of_def split: list.split)
  next
    case idle
    then show ?thesis
      using places by (auto simp: board_of_def split: list.split)
  next
    case (scheduled pj q' s1)
    let ?i = "job_id (pj_spec pj)" and ?q = "?s\<lparr>sch_pq := q'\<rparr>"
    have inv: "SCH_inv ?q" using ex by (simp add: SCH_exact_def)
    have new: "running s ?i = None"
      using assms(1) scheduled(2) by (auto simp: SCH_exact_def pending_ids_def)
    have "Scheduler_schedulable pj ?q" using scheduled(3) by simp
    from inv this scheduled(4) obtain l pid t where
      "running s1 = map_emplace ?i (start_job pj l pid now t) (running ?q)"
      "sch_pq s1 = q'" "sch_storage s1 = sch_storage s" "sch_stop s1 = sch_stop s"
      "total_lane s1 = total_lane s"
      by (rule schedule_effect) simp
    then show ?thesis
      using scheduled(1,2,3,5) new places [of pj]
      by (auto simp: board_of_def start_job_def fun_eq_iff)
  qed
qed

lemma board_step:
  assumes "SYS_exact api st" "aps_step api eager True st e st'"
  shows "board_of (fst (fst st')) = board_next e (board_of (fst (fst st)))"
  using assms(2)
proof (cases rule: aps_step.cases)
  case (submit pj s m w sub ex)
  then show ?thesis by (simp add: board_of_def Pending_Q_push_def)
next
  case (tick s now m w t sub ex)
  obtain s' m' w' where "t = (s', m', w')" by (cases t) auto
  then show ?thesis using tick assms(1) board_tick [of s api eager now m w s' m' w'] by simp
next
  case (exit now i code s s' m w sub ex)
  then show ?thesis using assms(1) board_exit by (simp add: SCH_exact_def)
next
  case (timeout i s m w t sub ex)
  obtain s' m' w' where "t = (s', m', w')" by (cases t) auto
  then show ?thesis using timeout board_timeout [of api i s m w s' m' w'] by simp
qed (simp_all add: board_of_def Scheduler_run_def Scheduler_stop_def)

interpretation board: step_refinement "aps_init api lane" "aps_step api eager True" "SYS_exact api"
  "\<lambda>st. board_of (fst (fst st))" board_next for api lane eager
  by unfold_locales (rule board_step)

lemma board_init:
  assumes "aps_init api lane ((s, m, w), sub, ex)"
  shows "board_of s = board_new (unat lane)"
  using assms
  by (auto simp: board_of_def board_new_def Scheduler_new_def Finished_Storage_new_def
      Pending_Q_new_def split: if_splits)



text \<open>
  Carried over: with a clock that does not run backwards every record of the scheduler ends no
  earlier than it started.
\<close>

lemma aps_record_times:
  assumes "aps_init api lane ((s, m, w), sub, ex)"
    and "steps (aps_step api eager True) ((s, m, w), sub, ex) es ((s', m', w'), sub', ex')"
    and "clock_ok t es" "sink (sch_storage s') i = Some fj"
  shows "fj_start_time fj \<le> fj_end_time fj"
proof -
  have "board_times t (board_of s)"
    by (simp add: board_init [OF assms(1)] board_new_def board_times_def)
  moreover have "SYS_exact api ((s, m, w), sub, ex)" using assms(1) by (rule SYS_exact_init)
  from board.steps_refine [OF assms(2) this]
  have "board_of s' = fold board_next es (board_of s)" by simp
  ultimately obtain t' where "board_times t' (board_of s')" using board_times_run assms(3) by metis
  then show ?thesis using assms(4) by (auto simp: board_times_def board_of_def)
qed

end
