(* ===== verification/Process_Output.thy ===== *)
theory Process_Output
  imports Process_Handler
begin

text \<open>
  \<^verbatim>\<open>process/process_handler.cpp\<close>: the output of a child process on its way to the line callback.
  The read loop of a stream (\<open>handle_stdout\<close> or \<open>handle_stderr\<close>, \<open>handle_stream\<close> and the completion
  handler) runs against a pipe into which the child writes in pieces of any size. The library's
  \<open>async_read_until\<close> moves bytes from the pipe to the stream buffer until that holds a newline, and
  then completes with the length up to and including the first one; when the pipe ends before a
  newline it completes with an error and length 0.
\<close>

section \<open>The loop and the pipe\<close>

abbreviation newline :: char where "newline \<equiv> CHR 0x0A"

text \<open>\<open>o_written\<close> records all the child has written, \<open>o_calls\<close> the calls of the line callback.\<close>

record ('c, 'l, 'x) output_state =
  o_handler :: "('c, 'l, 'x) Process_Handler"
  o_pipe :: string
  o_eof :: bool
  o_written :: string
  o_calls :: "('l \<times> string \<times> size_t) list"

text \<open>The length with which a read of this buffer completes, newline included.\<close>

definition line_length :: "string \<Rightarrow> nat" where
  "line_length buf = Suc (length (takeWhile (\<lambda>c. c \<noteq> newline) buf))"

definition complete_read ::
  "Stream \<Rightarrow> 'l option \<Rightarrow> bool \<Rightarrow> size_t \<Rightarrow> ('c, 'l, 'x) output_state \<Rightarrow> ('c, 'l, 'x) output_state" where
  "complete_read st cb ec len s =
     (let (call, h) = Process_Handler_on_read st cb ec len (o_handler s)
      in s\<lparr>o_handler := h,
           o_calls := o_calls s @ (case call of None \<Rightarrow> [] | Some c \<Rightarrow> [c])\<rparr>)"

datatype output_event = Child_Writes string | Child_Closes | Read_Some nat | Read_Line | Read_Fails

inductive output_step ::
  "Stream \<Rightarrow> ('c, 'l, 'x) output_state \<Rightarrow> output_event \<Rightarrow> ('c, 'l, 'x) output_state \<Rightarrow> bool"
  for st :: Stream where
  child_writes: "\<not> o_eof s \<Longrightarrow>
     output_step st s (Child_Writes bs)
       (s\<lparr>o_pipe := o_pipe s @ bs, o_written := o_written s @ bs\<rparr>)"
| child_closes: "output_step st s Child_Closes (s\<lparr>o_eof := True\<rparr>)"
| read_some: "(st, cb) \<in> set (h_reads (o_handler s)) \<Longrightarrow>
     newline \<notin> set (h_buf st (o_handler s)) \<Longrightarrow> 0 < n \<Longrightarrow> n \<le> length (o_pipe s) \<Longrightarrow>
     output_step st s (Read_Some n)
       (s\<lparr>o_handler := h_set_buf st (h_buf st (o_handler s) @ take n (o_pipe s)) (o_handler s),
          o_pipe := drop n (o_pipe s)\<rparr>)"
| read_line: "(st, cb) \<in> set (h_reads (o_handler s)) \<Longrightarrow>
     newline \<in> set (h_buf st (o_handler s)) \<Longrightarrow>
     output_step st s Read_Line
       (complete_read st cb False (of_nat (line_length (h_buf st (o_handler s)))) s)"
| read_fails: "(st, cb) \<in> set (h_reads (o_handler s)) \<Longrightarrow>
     newline \<notin> set (h_buf st (o_handler s)) \<Longrightarrow> o_pipe s = [] \<Longrightarrow> o_eof s \<Longrightarrow>
     output_step st s Read_Fails (complete_read st cb True 0 s)"

text \<open>The stream right after \<open>spawn\<close>: one read is outstanding, nothing was read yet.\<close>

definition output_init :: "Stream \<Rightarrow> 'l \<Rightarrow> ('c, 'l, 'x) output_state \<Rightarrow> bool" where
  "output_init st cb s \<longleftrightarrow>
     h_open st (o_handler s) \<and> h_cb st (o_handler s) = Some cb \<and> h_buf st (o_handler s) = [] \<and>
     filter (\<lambda>r. fst r = st) (h_reads (o_handler s)) = [(st, Some cb)] \<and>
     o_pipe s = [] \<and> o_written s = [] \<and> o_calls s = []"

lemma spawn_output_init:
  assumes "Process_Handler_spawn api opts h w = Inr (pid, h', w')" "h_proc h' \<noteq> None"
    and "h_cb st h = Some cb" "h_buf st h = []" "h_reads h = []"
  shows "output_init st cb
    \<lparr>o_handler = h', o_pipe = [], o_eof = False, o_written = [], o_calls = []\<rparr>"
  using assms
  by (cases st)
    (auto simp: Process_Handler_spawn_def output_init_def Process_Handler_stream_defs Let_def
      split: if_splits prod.splits option.splits)

section \<open>What the callback gets\<close>

text \<open>
  The text a call hands over, when its length is not the wrapped \<open>- 1\<close> of a failed read.
\<close>

definition call_line :: "'l \<times> string \<times> size_t \<Rightarrow> string" where
  "call_line c = take (unat (snd (snd c))) (fst (snd c))"

definition good_call :: "'l \<times> string \<times> size_t \<Rightarrow> bool" where
  "good_call c \<longleftrightarrow> snd (snd c) \<noteq> - 1"

definition delivered :: "('c, 'l, 'x) output_state \<Rightarrow> string list" where
  "delivered s = map call_line (filter good_call (o_calls s))"

text \<open>
  One read is in flight on the stream, and the lines handed over with what is still in the buffer
  and in the pipe are the output of the child, line by line. Every call hands over a line until the
  child closes its end.
\<close>

definition output_inv :: "Stream \<Rightarrow> 'l \<Rightarrow> ('c, 'l, 'x) output_state \<Rightarrow> bool" where
  "output_inv st cb s \<longleftrightarrow>
     h_open st (o_handler s) \<and> h_cb st (o_handler s) = Some cb \<and>
     filter (\<lambda>r. fst r = st) (h_reads (o_handler s)) = [(st, Some cb)] \<and>
     (length (o_written s) < 2 ^ 64 - 1 \<longrightarrow>
        length (h_buf st (o_handler s) @ o_pipe s) \<le> length (o_written s) \<and>
        split_on newline (o_written s) =
          delivered s @ split_on newline (h_buf st (o_handler s) @ o_pipe s) \<and>
        (\<not> o_eof s \<longrightarrow> list_all good_call (o_calls s)))"

lemma output_inv_init: "output_init st cb s \<Longrightarrow> output_inv st cb s"
  by (simp add: output_init_def output_inv_def delivered_def)

lemma only_read:
  assumes "output_inv st cb s" "(st, x) \<in> set (h_reads (o_handler s))"
  shows "x = Some cb"
proof -
  have "(st, x) \<in> set (filter (\<lambda>r. fst r = st) (h_reads (o_handler s)))" using assms(2) by simp
  with assms(1) show ?thesis by (simp add: output_inv_def)
qed

lemma rearmed_read:
  assumes "filter (\<lambda>r. fst r = st) rs = [(st, Some cb)]"
  shows "filter (\<lambda>r. fst r = st) (remove1 (st, Some cb) rs) = []"
  using assms filter_remove1 [of "\<lambda>r. fst r = st" "(st, Some cb)" rs] by simp

text \<open>Appending to a text appends to its last field.\<close>

lemma split_on_append:
  "split_on s (xs @ ys) =
     butlast (split_on s xs) @ (last (split_on s xs) @ hd (split_on s ys)) # tl (split_on s ys)"
proof (induction xs)
  case Nil
  then show ?case by (cases "split_on s ys") simp_all
next
  case (Cons c cs)
  obtain t ts where "split_on s cs = t # ts" by (cases "split_on s cs") auto
  with Cons show ?case by (cases ts) auto
qed

lemma split_on_extend:
  assumes "split_on s w = ls @ split_on s r"
  shows "split_on s (w @ bs) = ls @ split_on s (r @ bs)"
  using assms by (simp add: split_on_append butlast_append last_append)

lemma first_line:
  assumes "newline \<in> set buf"
  obtains l rest where "buf = l @ newline # rest" "newline \<notin> set l" "line_length buf = Suc (length l)"
proof -
  let ?l = "takeWhile (\<lambda>c. c \<noteq> newline) buf"
  from assms have "dropWhile (\<lambda>c. c \<noteq> newline) buf \<noteq> []" by (simp add: dropWhile_eq_Nil_conv)
  then obtain x rest where d: "dropWhile (\<lambda>c. c \<noteq> newline) buf = x # rest"
    by (cases "dropWhile (\<lambda>c. c \<noteq> newline) buf") auto
  then have "x = newline" using hd_dropWhile [of "\<lambda>c. c \<noteq> newline" buf] by simp
  with d have "buf = ?l @ newline # rest" using takeWhile_dropWhile_id [of _ buf] by metis
  moreover have "newline \<notin> set ?l" by (auto dest: set_takeWhileD)
  ultimately show thesis by (rule that) (simp add: line_length_def)
qed


section \<open>Every step keeps the invariant\<close>

lemma line_length_bounds: "newline \<in> set buf \<Longrightarrow> 0 < line_length buf \<and> line_length buf \<le> length buf"
  by (erule first_line) simp

text \<open>The length of a line survives the round trip through \<open>size_t\<close>, less the newline.\<close>

lemma line_length_word:
  assumes "newline \<in> set buf" "length buf < 2 ^ 64 - 1"
  shows "unat (of_nat (line_length buf) :: size_t) = line_length buf"
    and "unat (of_nat (line_length buf) - 1 :: size_t) = line_length buf - 1"
    and "(of_nat (line_length buf) - 1 :: size_t) \<noteq> - 1"
proof -
  have b: "0 < line_length buf" "line_length buf < 2 ^ 64 - 1"
    using line_length_bounds [OF assms(1)] assms(2) by auto
  show u: "unat (of_nat (line_length buf) :: size_t) = line_length buf"
    using b by (simp add: unat_of_nat)
  obtain k where k: "line_length buf = Suc k" using b(1) by (cases "line_length buf") auto
  then have e: "of_nat (line_length buf) - 1 = (of_nat k :: size_t)" by simp
  show v: "unat (of_nat (line_length buf) - 1 :: size_t) = line_length buf - 1"
    unfolding e using b(2) by (simp add: k unat_of_nat)
  show "(of_nat (line_length buf) - 1 :: size_t) \<noteq> - 1"
  proof
    assume "of_nat (line_length buf) - 1 = (- 1 :: size_t)"
    then have "unat (of_nat (line_length buf) - 1 :: size_t) = unat (- 1 :: size_t)" by simp
    moreover have "unat (- 1 :: size_t) = 2 ^ 64 - 1"
      by (simp add: unsigned_minus_1_eq_mask mask_eq_exp_minus_1)
    ultimately show False using v b by (simp only: e)
  qed
qed

lemma complete_read_eq:
  assumes "h_open st (o_handler s)" "h_cb st (o_handler s) = Some cb"
  shows "complete_read st (Some cb) ec len s =
    s\<lparr>o_handler := (h_set_buf st (drop (unat len) (h_buf st (o_handler s))) (o_handler s))
          \<lparr>h_reads := remove1 (st, Some cb) (h_reads (o_handler s)) @ [(st, Some cb)]\<rparr>,
      o_calls := o_calls s @ [(cb, h_buf st (o_handler s), len - 1)]\<rparr>"
  using assms by (simp add: complete_read_def on_read_eq)

lemma read_line_keeps:
  assumes inv: "output_inv st cb s" and nl: "newline \<in> set (h_buf st (o_handler s))"
  shows "output_inv st cb
    (complete_read st (Some cb) False (of_nat (line_length (h_buf st (o_handler s)))) s)"
proof -
  let ?b = "h_buf st (o_handler s)"
  let ?n = "of_nat (line_length ?b) :: size_t"
  have o: "h_open st (o_handler s)" "h_cb st (o_handler s) = Some cb"
    "filter (\<lambda>r. fst r = st) (h_reads (o_handler s)) = [(st, Some cb)]"
    using inv by (auto simp: output_inv_def)
  obtain l rest where b: "?b = l @ newline # rest" "newline \<notin> set l" "line_length ?b = Suc (length l)"
    using nl by (rule first_line)
  have "length (drop (unat ?n) ?b @ o_pipe s) \<le> length (o_written s) \<and>
      split_on newline (o_written s) =
        (delivered s @ [call_line (cb, ?b, ?n - 1)]) @ split_on newline (drop (unat ?n) ?b @ o_pipe s)
      \<and> good_call (cb, ?b, ?n - 1) \<and> (\<not> o_eof s \<longrightarrow> list_all good_call (o_calls s))"
    if small: "length (o_written s) < 2 ^ 64 - 1"
  proof -
    have le: "length (?b @ o_pipe s) \<le> length (o_written s)"
      and sp: "split_on newline (o_written s) = delivered s @ split_on newline (?b @ o_pipe s)"
      and g: "\<not> o_eof s \<longrightarrow> list_all good_call (o_calls s)"
      using inv small by (auto simp: output_inv_def)
    have "length ?b < 2 ^ 64 - 1" using le small by simp
    note w = line_length_word [OF nl this]
    have "call_line (cb, ?b, ?n - 1) = l" using w(2) b by (simp add: call_line_def)
    moreover have "drop (unat ?n) ?b = rest" using w(1) b by simp
    moreover have "split_on newline (?b @ o_pipe s) = l # split_on newline (rest @ o_pipe s)"
      using b(1,2) by (simp add: split_on_append_sep)
    ultimately show ?thesis using sp le g w(3) b(1) by (simp add: good_call_def)
  qed
  then show ?thesis
    using o rearmed_read [OF o(3)]
    by (auto simp: complete_read_eq [OF o(1,2)] output_inv_def delivered_def)
qed

lemma read_fails_keeps:
  assumes inv: "output_inv st cb s" and "o_eof s"
  shows "output_inv st cb (complete_read st (Some cb) True 0 s)"
proof -
  have o: "h_open st (o_handler s)" "h_cb st (o_handler s) = Some cb"
    "filter (\<lambda>r. fst r = st) (h_reads (o_handler s)) = [(st, Some cb)]"
    using inv by (auto simp: output_inv_def)
  then show ?thesis
    using assms rearmed_read [OF o(3)]
    by (auto simp: complete_read_eq [OF o(1,2)] output_inv_def delivered_def good_call_def)
qed

lemma output_inv_step:
  assumes inv: "output_inv st cb s" and "output_step st s e t"
  shows "output_inv st cb t"
  using assms(2)
proof cases
  case (child_writes bs)
  then show ?thesis
    using inv by (auto simp: output_inv_def delivered_def dest: split_on_extend [of _ _ _ _ bs])
next
  case child_closes
  then show ?thesis using inv by (simp add: output_inv_def delivered_def)
next
  case (read_some x n)
  then show ?thesis using inv by (simp add: output_inv_def delivered_def)
next
  case (read_line x)
  moreover from this have "x = Some cb" using only_read [OF inv] by simp
  ultimately show ?thesis using read_line_keeps [OF inv] by simp
next
  case (read_fails x)
  moreover from this have "x = Some cb" using only_read [OF inv] by simp
  ultimately show ?thesis using read_fails_keeps [OF inv] read_fails by simp
qed

interpretation out: invariant_system "output_init st cb" "output_step st" "output_inv st cb"
  for st cb
  by unfold_locales (auto intro: output_inv_init output_inv_step)


section \<open>Everything written is handed over, and then nothing ends the loop\<close>

lemma output_handler_fields:
  assumes "output_inv st cb s"
  shows "h_open st (o_handler s)" "h_cb st (o_handler s) = Some cb"
    "(st, Some cb) \<in> set (h_reads (o_handler s))"
proof -
  show "h_open st (o_handler s)" "h_cb st (o_handler s) = Some cb"
    using assms by (simp_all add: output_inv_def)
  have "(st, Some cb) \<in> set (filter (\<lambda>r. fst r = st) (h_reads (o_handler s)))"
    using assms by (simp add: output_inv_def)
  then show "(st, Some cb) \<in> set (h_reads (o_handler s))" by simp
qed

text \<open>A run of reads empties the pipe and leaves at most an unfinished line in the buffer.\<close>

lemma reads_drain:
  assumes "output_inv st cb s" "length (o_written s) < 2 ^ 64 - 1"
  shows "\<exists>es t. steps (output_step st) s es t \<and> set es \<subseteq> range Read_Some \<union> {Read_Line} \<and>
    o_pipe t = [] \<and> newline \<notin> set (h_buf st (o_handler t)) \<and> o_written t = o_written s"
  using assms
proof (induction "length (h_buf st (o_handler s)) + 2 * length (o_pipe s)" arbitrary: s
    rule: less_induct)
  case less
  note f = output_handler_fields [OF less.prems(1)]
  let ?b = "h_buf st (o_handler s)"
  have go: ?case if "output_step st s e t" "e \<in> range Read_Some \<union> {Read_Line}"
      "o_written t = o_written s"
      "length (h_buf st (o_handler t)) + 2 * length (o_pipe t) < length ?b + 2 * length (o_pipe s)"
    for e t
  proof -
    have "output_inv st cb t" by (rule output_inv_step [OF less.prems(1) that(1)])
    from less.hyps [OF that(4) this] that(3) less.prems(2) obtain es u where
      "steps (output_step st) t es u" "set es \<subseteq> range Read_Some \<union> {Read_Line}"
      "o_pipe u = []" "newline \<notin> set (h_buf st (o_handler u))" "o_written u = o_written s"
      by auto
    with that(1,2) show ?thesis by (intro exI [of _ "e # es"] exI [of _ u]) auto
  qed
  consider (line) "newline \<in> set ?b" | (some) "newline \<notin> set ?b" "o_pipe s \<noteq> []"
    | (finished) "newline \<notin> set ?b" "o_pipe s = []" by blast
  then show ?case
  proof cases
    case line
    have "length ?b < 2 ^ 64 - 1" using less.prems by (simp add: output_inv_def)
    note w = line_length_word(1) [OF line this]
    show ?thesis
      by (rule go [OF output_step.read_line [OF f(3) line]])
        (use line_length_bounds [OF line] w in \<open>auto simp: complete_read_eq [OF f(1,2)]\<close>)
  next
    case some
    show ?thesis
      by (rule go [OF output_step.read_some [OF f(3) some(1), of "length (o_pipe s)"]])
        (use some in auto)
  next
    case finished
    then show ?thesis by (intro exI [of _ "[]"] exI [of _ s]) auto
  qed
qed

text \<open>A failed read of a stream whose loop is alive changes nothing but the list of calls.\<close>

lemma failed_read_eq:
  assumes "output_inv st cb s"
  shows "h_buf st (o_handler (complete_read st (Some cb) True 0 s)) = h_buf st (o_handler s)"
    and "o_pipe (complete_read st (Some cb) True 0 s) = o_pipe s"
    and "o_eof (complete_read st (Some cb) True 0 s) = o_eof s"
    and "o_calls (complete_read st (Some cb) True 0 s) =
           o_calls s @ [(cb, h_buf st (o_handler s), - 1)]"
  using output_handler_fields(1,2) [OF assms] by (simp_all add: complete_read_eq)

lemma failed_reads:
  assumes "output_inv st cb s" "o_eof s" "o_pipe s = []" "newline \<notin> set (h_buf st (o_handler s))"
  shows "\<exists>t. steps (output_step st) s (replicate n Read_Fails) t \<and>
    h_buf st (o_handler t) = h_buf st (o_handler s) \<and>
    o_calls t = o_calls s @ replicate n (cb, h_buf st (o_handler s), - 1)"
  using assms
proof (induction n arbitrary: s)
  case 0
  then show ?case by (intro exI [of _ s]) auto
next
  case (Suc n)
  let ?s = "complete_read st (Some cb) True 0 s"
  have step: "output_step st s Read_Fails ?s"
    using Suc.prems output_handler_fields(3) [OF Suc.prems(1)] by (auto intro: output_step.read_fails)
  note eqs = failed_read_eq [OF Suc.prems(1)]
  from Suc.IH [of ?s] output_inv_step [OF Suc.prems(1) step] Suc.prems obtain t where
    "steps (output_step st) ?s (replicate n Read_Fails) t"
    "h_buf st (o_handler t) = h_buf st (o_handler s)"
    "o_calls t = o_calls ?s @ replicate n (cb, h_buf st (o_handler s), - 1)"
    by (auto simp: eqs)
  with step show ?case by (intro exI [of _ t]) (auto simp: eqs)
qed

lemma at_end_only_fails:
  assumes "output_step st s e t" "o_eof s" "o_pipe s = []" "newline \<notin> set (h_buf st (o_handler s))"
  shows "e = Read_Fails \<or> t = s"
  using assms by (auto elim!: output_step.cases)

section \<open>A run of the loop\<close>

text \<open>A child that writes \<open>ab\<close>, a newline and \<open>c\<close>, and then closes its end.\<close>

inductive_simps output_step_simps:
  "output_step st s (Child_Writes bs) t" "output_step st s Child_Closes t"
  "output_step st s (Read_Some n) t" "output_step st s Read_Line t"

definition out_at ::
  "string \<Rightarrow> string \<Rightarrow> bool \<Rightarrow> string \<Rightarrow> (nat \<times> string \<times> size_t) list \<Rightarrow> (nat, nat, nat) output_state" where
  "out_at buf pipe eof written calls =
     \<lparr>o_handler = (Process_Handler_new True)\<lparr>h_proc := Some 7, h_stdin := True, h_stdout := True,
        h_stderr := True, h_stdout_buf := buf, h_stdout_cb := Some 0,
        h_reads := [(STDOUT, Some 0)]\<rparr>,
      o_pipe = pipe, o_eof = eof, o_written = written, o_calls = calls\<rparr>"

abbreviation out_text :: string where "out_text \<equiv> ''ab'' @ newline # ''c''"

lemma out_run:
  "reach (output_init STDOUT 0) (output_step STDOUT)
     (out_at ''c'' [] True out_text [(0, out_text, 2)])"
proof -
  let ?at = "reach (output_init STDOUT 0) (output_step STDOUT)"
  have "?at (out_at [] [] False [] [])"
    by (rule reach_init) (simp add: output_init_def out_at_def Process_Handler_new_def)
  then have "?at (out_at [] out_text False out_text [])"
    by (rule reach_step [of _ _ _ "Child_Writes out_text"])
      (simp add: output_step_simps out_at_def)
  then have "?at (out_at [] out_text True out_text [])"
    by (rule reach_step [of _ _ _ Child_Closes]) (simp add: output_step_simps out_at_def)
  then have "?at (out_at out_text [] True out_text [])"
    by (rule reach_step [of _ _ _ "Read_Some 4"])
      (auto simp: output_step_simps out_at_def Process_Handler_new_def)
  then show ?thesis
    by (rule reach_step [of _ _ _ Read_Line])
      (auto simp: output_step_simps out_at_def Process_Handler_new_def complete_read_eq
        line_length_def)
qed

text \<open>
  No line is left behind: from every reachable state a run of reads alone hands over every
  line the child has finished, leaves its unfinished last line in the buffer and empties the pipe.
\<close>

lemma output_drains:
  assumes "reach (output_init st cb) (output_step st) s" "length (o_written s) < 2 ^ 64 - 1"
  shows "\<exists>es t. steps (output_step st) s es t \<and> set es \<subseteq> range Read_Some \<union> {Read_Line} \<and>
    delivered t = butlast (split_on newline (o_written s)) \<and>
    h_buf st (o_handler t) = last (split_on newline (o_written s)) \<and> o_pipe t = []"
proof -
  obtain es t where t: "steps (output_step st) s es t" "set es \<subseteq> range Read_Some \<union> {Read_Line}"
    "o_pipe t = []" "newline \<notin> set (h_buf st (o_handler t))" "o_written t = o_written s"
    using reads_drain [OF out.reach_inv [OF assms(1)] assms(2)] by blast
  have "output_inv st cb t" by (rule out.reach_inv [OF reach_steps [OF t(1) assms(1)]])
  then have "split_on newline (o_written s) = delivered t @ [h_buf st (o_handler t)]"
    using t assms(2) by (simp add: output_inv_def split_on_no_sep)
  then show ?thesis using t by (intro exI [of _ es] exI [of _ t]) simp
qed

text \<open>
  C23: The output of a child reaches the callback line by line. After any interleaving of writes of
  the child, of partial reads and of completed reads, the complete lines the callback was given are
  exactly the first lines of what the child has written, in order and each without its newline,
  the rest is in the buffer and the pipe, exactly one read of the stream is in flight, and until
  the child closes its end every call hands over a line. No line is left behind: a run of reads
  alone hands over every line the child has finished and leaves its unfinished last line in the
  buffer. The total output has to stay below 2^64 - 1 bytes, the range of \<open>size_t\<close>.
\<close>

theorem output_lines_in_order:
  assumes "reach (output_init st cb) (output_step st) s" "length (o_written s) < 2 ^ 64 - 1"
  shows "split_on newline (o_written s) =
      delivered s @ split_on newline (h_buf st (o_handler s) @ o_pipe s) \<and>
    filter (\<lambda>r. fst r = st) (h_reads (o_handler s)) = [(st, Some cb)] \<and>
    (o_eof s \<or> (\<forall>c \<in> set (o_calls s). good_call c)) \<and>
    (\<exists>es t. steps (output_step st) s es t \<and> set es \<subseteq> range Read_Some \<union> {Read_Line} \<and>
      delivered t = butlast (split_on newline (o_written s)) \<and>
      h_buf st (o_handler t) = last (split_on newline (o_written s)) \<and> o_pipe t = [])"
  using out.reach_inv [OF assms(1)] assms(2) output_drains [OF assms]
  by (auto simp: output_inv_def list_all_iff)

theorem output_lines_in_order_witness:
  "split_on newline out_text =
     delivered (out_at ''c'' [] True out_text [(0, out_text, 2)]) @ split_on newline ''c'' \<and>
   delivered (out_at ''c'' [] True out_text [(0, out_text, 2)]) = [''ab'']"
  using output_lines_in_order [OF out_run]
  by (simp add: out_at_def delivered_def call_line_def good_call_def)

text \<open>
  C24: The read loop never ends. Once the child has closed its end and the pipe is empty, a read
  fails, its completion handler ignores the error and starts the next one: for every \<open>n\<close> there is
  a run of \<open>n\<close> failed reads, each of which calls the callback with the unfinished line in the buffer
  and the length 2^64 - 1, and leaves everything as it was; no other step changes the state.
\<close>

theorem output_eof_spins:
  assumes "reach (output_init st cb) (output_step st) s"
    and "o_eof s" "o_pipe s = []" "newline \<notin> set (h_buf st (o_handler s))"
  shows "(\<exists>t. steps (output_step st) s (replicate n Read_Fails) t \<and>
      h_buf st (o_handler t) = h_buf st (o_handler s) \<and>
      o_calls t = o_calls s @ replicate n (cb, h_buf st (o_handler s), - 1)) \<and>
    (\<forall>e t. output_step st s e t \<longrightarrow> e = Read_Fails \<or> t = s)"
  using failed_reads [OF out.reach_inv [OF assms(1)] assms(2-4)] at_end_only_fails [OF _ assms(2-4)]
  by blast

theorem output_eof_spins_witness:
  "\<exists>t. steps (output_step STDOUT) (out_at ''c'' [] True out_text [(0, out_text, 2)])
      (replicate 3 Read_Fails) t \<and>
    o_calls t = [(0, out_text, 2), (0, ''c'', - 1), (0, ''c'', - 1), (0, ''c'', - 1)]"
  using output_eof_spins [OF out_run, of 3]
  by (auto simp: out_at_def numeral_3_eq_3)

end
