(* ===== verification/Aps_Output.thy ===== *)
theory Aps_Output
  imports Aps_Properties Process_Output
begin

text \<open>
  What becomes of the output of the children the scheduler starts: \<^verbatim>\<open>process/aps_scheduler.cpp\<close>
  spawns every job without line callbacks, \<^verbatim>\<open>process/process_handler.cpp\<close> connects both output
  streams to pipes all the same and reads a pipe only for a callback. And what becomes of a read
  that is in flight when the manager deletes its handler.
\<close>

section \<open>Handlers without line callbacks\<close>

definition unread :: "('c, 'l, 'x) Process_Handler \<Rightarrow> bool" where
  "unread h \<longleftrightarrow> h_stdout h \<and> h_stderr h \<and> h_reads h = [] \<and>
     h_stdout_cb h = None \<and> h_stderr_cb h = None"

definition unread_manager :: "('c, 'l, 'x) Process_Manager \<Rightarrow> bool" where
  "unread_manager m \<longleftrightarrow> (\<forall>pid h. pm_handlers m pid = Some h \<longrightarrow> unread h)"

lemmas make_handler_defs = Process_Manager_make_handler_def Process_Handler_new_def
  Process_Handler_stdout_callback_def Process_Handler_stderr_callback_def
  Process_Handler_exit_callback_def

lemma handler_spawn_unread:
  assumes "Process_Handler_spawn api opts (Process_Manager_make_handler None None cb m) w =
      Inr (pid, h, w')" "pid \<noteq> - 1"
  shows "unread h"
  using assms
  by (auto simp: Process_Handler_spawn_def make_handler_defs Process_Handler_stream_defs unread_def
      Let_def split: if_splits option.splits prod.splits)

lemma spawn_unread_manager:
  assumes "unread_manager m"
    and "Process_Manager_spawn api eager opts None None cb m w = Inr (pid, m', w')"
  shows "unread_manager m'"
proof -
  obtain p h w1 where sp: "Process_Handler_spawn api opts
      (Process_Manager_make_handler None None cb m) w = Inr (p, h, w1)"
    using assms(2) by (auto simp: Process_Manager_spawn_def and_then_Inr)
  have "m' = m \<or> (p \<noteq> - 1 \<and> m' = m\<lparr>pm_handlers := (pm_handlers m)(p \<mapsto> h)\<rparr>)"
    using assms(2)
    by (auto simp: Process_Manager_spawn_def sp and_then_Inr split: if_splits option.splits)
  then show ?thesis
    using assms(1) handler_spawn_unread [OF sp] by (auto simp: unread_manager_def split: if_splits)
qed

lemma terminate_erases:
  assumes "Process_Manager_terminate api pid m w = Inr (m', w')"
  shows "pm_handlers m' = (pm_handlers m)(pid := None)"
proof (cases "pm_handlers m pid")
  case None
  then have "(pm_handlers m)(pid := None) = pm_handlers m" by auto
  with None assms show ?thesis
    by (auto simp: Process_Manager_terminate_def Process_Manager_find_handler_def
        Process_Manager_remove_handler_def)
next
  case (Some h)
  with assms show ?thesis
    by (auto simp: Process_Manager_terminate_def Process_Manager_find_handler_def
        Process_Manager_remove_handler_def and_then_Inr)
qed

lemma terminate_unread_manager:
  "unread_manager m \<Longrightarrow> Process_Manager_terminate api pid m w = Inr (m', w') \<Longrightarrow> unread_manager m'"
  by (simp add: unread_manager_def terminate_erases)

interpretation unread_service: process_service api eager unread_manager for api eager
  by unfold_locales (auto intro: spawn_unread_manager terminate_unread_manager)

text \<open>A stream nobody reads: its pipe only grows.\<close>

lemma unread_stream:
  assumes "steps (output_step st) s es t" "unread (o_handler s)"
  shows "\<exists>bs. o_handler t = o_handler s \<and> o_calls t = o_calls s \<and>
    o_written t = o_written s @ bs \<and> o_pipe t = o_pipe s @ bs"
  using assms
proof (induction rule: steps.induct)
  case (steps_Cons s e u es t)
  have "\<exists>bs. o_handler u = o_handler s \<and> o_calls u = o_calls s \<and>
      o_written u = o_written s @ bs \<and> o_pipe u = o_pipe s @ bs"
    using steps_Cons.hyps(1) steps_Cons.prems
    by (auto elim!: output_step.cases simp: unread_def)
  then show ?case using steps_Cons.IH steps_Cons.prems by fastforce
qed simp

text \<open>
  C15: The output of the jobs is never read. In every state the scheduler reaches over a process
  manager that it alone uses, for any submissions and any events, every child still has both output
  pipes open and no read of them in flight or to come: whatever the child writes stays in the pipe
  (whose size the system bounds), no read is ever aborted on a deleted handler, and no line of
  output is ever seen.
\<close>

theorem aps_output_unread:
  assumes "reach (\<lambda>st. aps_init api lane st \<and> pm_handlers (fst (snd (fst st))) = Map.empty)
      (aps_step api eager fresh) ((s, m, w), sub, ex)"
    and "pm_handlers m pid = Some h"
  shows "h_stdout h \<and> h_stderr h \<and> h_reads h = [] \<and>
    (\<forall>st t es. steps (output_step st)
        \<lparr>o_handler = h, o_pipe = [], o_eof = False, o_written = [], o_calls = []\<rparr> es t \<longrightarrow>
      o_pipe t = o_written t \<and> o_calls t = [])"
proof -
  have "unread_manager (fst (snd (fst ((s, m, w), sub, ex))))"
    by (rule unread_service.reach_service [OF assms(1)]) (auto simp: unread_manager_def)
  then have u: "unread h" using assms(2) by (simp add: unread_manager_def)
  then show ?thesis using unread_stream by (fastforce simp: unread_def)
qed

theorem aps_output_unread_witness:
  "h_reads demo_handler = [] \<and>
    (\<exists>t. steps (output_step STDOUT) \<lparr>o_handler = demo_handler, o_pipe = [], o_eof = False,
        o_written = [], o_calls = []\<rparr> [Child_Writes ''hi''] t \<and> o_pipe t = ''hi'' \<and> o_calls t = [])"
proof -
  let ?I = "\<lambda>st. aps_init toy_api 4 st \<and> pm_handlers (fst (snd (fst st))) = Map.empty"
  let ?o = "\<lparr>o_handler = demo_handler, o_pipe = [], o_eof = False, o_written = [], o_calls = []\<rparr>"
  let ?t = "?o\<lparr>o_pipe := ''hi'', o_written := ''hi''\<rparr>"
  have "output_step STDOUT ?o (Child_Writes ''hi'') ?t" by (simp add: output_step_simps)
  then have run: "steps (output_step STDOUT) ?o [Child_Writes ''hi''] ?t" by blast
  have "?I ((demo_sch, demo_pm, []), {#}, {#})" using demo_init by (simp add: demo_pm_def)
  from demo_reach_from [of ?I, OF this] have
    "h_reads demo_handler = []" "o_pipe ?t = o_written ?t \<and> o_calls ?t = []"
    using aps_output_unread [of toy_api 4 True False demo_sch1 demo_pm1 "[5]" "{#''j''#}" "{#}" 5
        demo_handler] run
    by (simp_all add: demo_pm1_def)
  then show ?thesis using run by (intro conjI exI [of _ ?t]) simp_all
qed

section \<open>Reads that outlive their handler\<close>

text \<open>
  A read in flight outlives its handler. After a successful \<open>spawn\<close> with a callback for
  standard output under a new identifier, a read is in flight whose completion handler holds a
  pointer to the process handler; \<open>terminate\<close> leaves that read outstanding on the handler it then
  deletes.
\<close>

lemma pm_terminate_orphans_read:
  assumes "Process_Manager_spawn api eager opts (Some cb) so ex m w = Inr (pid, m', w')"
    and "pid \<noteq> - 1" "pm_handlers m pid = None" "Process_Handler_terminate api h w1 = Inr (h', w2)"
    and "pm_handlers m' pid = Some h" "Process_Manager_terminate api pid m' w1 = Inr (m2, w3)"
  shows "(STDOUT, Some cb) \<in> set (h_reads h) \<and> h_reads h' = h_reads h \<and> pm_handlers m2 pid = None"
proof -
  obtain p h0 w0 where sp: "Process_Handler_spawn api opts
      (Process_Manager_make_handler (Some cb) so ex m) w = Inr (p, h0, w0)"
    using assms(1) by (auto simp: Process_Manager_spawn_def and_then_Inr)
  have "p = pid" "h0 = h"
    using assms(1-3,5)
    by (auto simp: Process_Manager_spawn_def sp and_then_Inr split: if_splits option.splits)
  then have "(STDOUT, Some cb) \<in> set (h_reads h)"
    using sp assms(2)
    by (auto simp: Process_Handler_spawn_def make_handler_defs Process_Handler_stream_defs Let_def
        split: if_splits option.splits prod.splits)
  moreover have "h_reads h' = h_reads h"
    using assms(4) by (auto simp: Process_Handler_terminate_def Let_def split: option.splits prod.splits)
  ultimately show ?thesis using terminate_erases [OF assms(6)] by simp
qed

end
