(* ===== verification/Process_Manager_Threads.thy ===== *)
theory Process_Manager_Threads
  imports Process_Manager
begin

text \<open>
  \<open>src/process/process_manager.cpp\<close> with several threads. \<open>terminate\<close> holds the mutex for its
  whole body, but \<open>wait\<close> takes it twice, around the lookup and around the removal, and uses the
  raw pointer in between, and \<open>spawn\<close> takes it only to file the handler. Handlers therefore live
  in an explicit heap, the map of the manager holds their addresses, and each stretch of a call
  that runs under one lock (or without any) is a step. Using a handler that was deleted is
  \<open>Inl Dangling_Pointer\<close>. The coarse operations of theory \<open>Process_Manager\<close> are shown to be what
  the steps of an undisturbed call amount to.
\<close>

section \<open>State\<close>

type_synonym addr = nat
type_synonym thread = nat

text \<open>Where a thread stands inside a call: the local variables it still needs.\<close>

datatype pm_local =
    Spawned pid_t addr
  | Found pid_t addr
  | Waited pid_t addr
  | Coded pid_t int

record ('c, 'l, 'x, 'w) pm_threads =
  t_ioc :: bool
  t_heap :: "addr \<rightharpoonup> ('c, 'l, 'x) Process_Handler"
  t_next :: addr
  t_table :: "pid_t \<rightharpoonup> addr"
  t_locals :: "thread \<rightharpoonup> pm_local"
  t_world :: 'w

datatype ('l, 'x) pm_thread_event =
    Spawn_Start thread Process_Options "'l option" "'l option" "'x option"
  | Spawn_File thread
  | Wait_Find thread pid_t
  | Wait_Block thread
  | Wait_Code thread
  | Wait_Remove thread
  | Terminate_Locked pid_t
  | Terminate_Children_Locked pid_t

section \<open>Steps\<close>

definition deref :: "('c, 'l, 'x, 'w) pm_threads \<Rightarrow> addr \<Rightarrow> Undefined + ('c, 'l, 'x) Process_Handler" where
  "deref st a = (case t_heap st a of None \<Rightarrow> Inl Dangling_Pointer | Some h \<Rightarrow> Inr h)"

text \<open>\<open>delete h\<close>: the destructor runs, then the memory is free.\<close>

definition delete_handler ::
  "('c, 'x, 'w) process_api \<Rightarrow> addr \<Rightarrow> ('c, 'l, 'x, 'w) pm_threads \<Rightarrow>
     Undefined + ('c, 'l, 'x, 'w) pm_threads" where
  "delete_handler api a st =
     and_then (deref st a) (\<lambda>h.
     and_then (Process_Handler_dtor api h (t_world st)) (\<lambda>w.
       Inr (st\<lparr> t_heap := (t_heap st)(a := None), t_world := w \<rparr>)))"

definition t_remove_handler ::
  "('c, 'x, 'w) process_api \<Rightarrow> pid_t \<Rightarrow> ('c, 'l, 'x, 'w) pm_threads \<Rightarrow>
     Undefined + ('c, 'l, 'x, 'w) pm_threads" where
  "t_remove_handler api pid st =
     (case t_table st pid of
        None \<Rightarrow> Inr st
      | Some a \<Rightarrow>
          and_then (delete_handler api a st)
            (\<lambda>st. Inr (st\<lparr> t_table := (t_table st)(pid := None) \<rparr>)))"

definition t_spawn_start ::
  "('c, 'x, 'w) process_api \<Rightarrow> thread \<Rightarrow> Process_Options \<Rightarrow> 'l option \<Rightarrow> 'l option \<Rightarrow> 'x option \<Rightarrow>
     ('c, 'l, 'x, 'w) pm_threads \<Rightarrow> Undefined + ('c, 'l, 'x, 'w) pm_threads" where
  "t_spawn_start api t opts so se ex st =
     (let a = t_next st;
          h = Process_Manager_make_handler so se ex \<lparr> pm_ioc = t_ioc st, pm_handlers = Map.empty \<rparr>
      in and_then (Process_Handler_spawn api opts h (t_world st)) (\<lambda>(pid, h, w).
           let st = st\<lparr> t_heap := (t_heap st)(a \<mapsto> h), t_next := Suc a, t_world := w \<rparr> in
           if pid = - 1 then delete_handler api a st
           else Inr (st\<lparr> t_locals := (t_locals st)(t \<mapsto> Spawned pid a) \<rparr>)))"

definition t_spawn_file ::
  "('c, 'x, 'w) process_api \<Rightarrow> bool \<Rightarrow> thread \<Rightarrow> ('c, 'l, 'x, 'w) pm_threads \<Rightarrow>
     Undefined + ('c, 'l, 'x, 'w) pm_threads" where
  "t_spawn_file api eager t st =
     (case t_locals st t of
        Some (Spawned pid a) \<Rightarrow>
          (let st = st\<lparr> t_locals := (t_locals st)(t := None) \<rparr> in
           case t_table st pid of
             None \<Rightarrow> Inr (st\<lparr> t_table := (t_table st)(pid \<mapsto> a) \<rparr>)
           | Some _ \<Rightarrow> if eager then delete_handler api a st else Inr st)
      | _ \<Rightarrow> Inr st)"

definition t_wait_find ::
  "thread \<Rightarrow> pid_t \<Rightarrow> ('c, 'l, 'x, 'w) pm_threads \<Rightarrow> ('c, 'l, 'x, 'w) pm_threads" where
  "t_wait_find t pid st =
     (case t_table st pid of
        None \<Rightarrow> st
      | Some a \<Rightarrow> st\<lparr> t_locals := (t_locals st)(t \<mapsto> Found pid a) \<rparr>)"

definition t_wait_block ::
  "('c, 'x, 'w) process_api \<Rightarrow> thread \<Rightarrow> ('c, 'l, 'x, 'w) pm_threads \<Rightarrow>
     Undefined + ('c, 'l, 'x, 'w) pm_threads" where
  "t_wait_block api t st =
     (case t_locals st t of
        Some (Found pid a) \<Rightarrow>
          and_then (deref st a) (\<lambda>h.
            Inr (st\<lparr> t_world := Process_Handler_wait api h (t_world st),
                    t_locals := (t_locals st)(t \<mapsto> Waited pid a) \<rparr>))
      | _ \<Rightarrow> Inr st)"

definition t_wait_code ::
  "('c, 'x, 'w) process_api \<Rightarrow> thread \<Rightarrow> ('c, 'l, 'x, 'w) pm_threads \<Rightarrow>
     Undefined + ('c, 'l, 'x, 'w) pm_threads" where
  "t_wait_code api t st =
     (case t_locals st t of
        Some (Waited pid a) \<Rightarrow>
          and_then (deref st a) (\<lambda>h.
            Inr (st\<lparr> t_locals := (t_locals st)
                     (t \<mapsto> Coded pid (Process_Handler_exit_code api h (t_world st))) \<rparr>))
      | _ \<Rightarrow> Inr st)"

definition t_wait_remove ::
  "('c, 'x, 'w) process_api \<Rightarrow> thread \<Rightarrow> ('c, 'l, 'x, 'w) pm_threads \<Rightarrow>
     Undefined + ('c, 'l, 'x, 'w) pm_threads" where
  "t_wait_remove api t st =
     (case t_locals st t of
        Some (Coded pid ec) \<Rightarrow>
          t_remove_handler api pid (st\<lparr> t_locals := (t_locals st)(t := None) \<rparr>)
      | _ \<Rightarrow> Inr st)"

definition t_terminate ::
  "('c, 'x, 'w) process_api \<Rightarrow> pid_t \<Rightarrow> ('c, 'l, 'x, 'w) pm_threads \<Rightarrow>
     Undefined + ('c, 'l, 'x, 'w) pm_threads" where
  "t_terminate api pid st =
     (case t_table st pid of
        None \<Rightarrow> t_remove_handler api pid st
      | Some a \<Rightarrow>
          and_then (deref st a) (\<lambda>h.
          and_then (Process_Handler_terminate api h (t_world st)) (\<lambda>(h', w).
            t_remove_handler api pid (st\<lparr> t_heap := (t_heap st)(a \<mapsto> h'), t_world := w \<rparr>))))"

fun pm_thread_call ::
  "('c, 'x, 'w) process_api \<Rightarrow> bool \<Rightarrow> ('l, 'x) pm_thread_event \<Rightarrow> ('c, 'l, 'x, 'w) pm_threads \<Rightarrow>
     Undefined + ('c, 'l, 'x, 'w) pm_threads" where
  "pm_thread_call api eager (Spawn_Start t opts so se ex) st = t_spawn_start api t opts so se ex st"
| "pm_thread_call api eager (Spawn_File t) st = t_spawn_file api eager t st"
| "pm_thread_call api eager (Wait_Find t pid) st = Inr (t_wait_find t pid st)"
| "pm_thread_call api eager (Wait_Block t) st = t_wait_block api t st"
| "pm_thread_call api eager (Wait_Code t) st = t_wait_code api t st"
| "pm_thread_call api eager (Wait_Remove t) st = t_wait_remove api t st"
| "pm_thread_call api eager (Terminate_Locked pid) st = t_terminate api pid st"
| "pm_thread_call api eager (Terminate_Children_Locked pid) st = t_remove_handler api pid st"

lemmas t_defs = deref_def delete_handler_def t_remove_handler_def t_spawn_start_def
  t_spawn_file_def t_wait_find_def t_wait_block_def t_wait_code_def t_wait_remove_def
  t_terminate_def

section \<open>Memory invariant\<close>

text \<open>A live handler with the child of that identifier.\<close>

definition owns :: "('c, 'x, 'w) process_api \<Rightarrow> ('c, 'l, 'x, 'w) pm_threads \<Rightarrow> pid_t \<Rightarrow> addr \<Rightarrow> bool" where
  "owns api st pid a \<longleftrightarrow>
     a < t_next st \<and> (\<exists>h c. t_heap st a = Some h \<and> h_proc h = Some c \<and> api_id api c = pid)"

text \<open>The threads that are inside \<open>wait\<close> for an identifier.\<close>

fun waits_for :: "pm_local \<Rightarrow> pid_t option" where
  "waits_for (Spawned pid a) = None"
| "waits_for (Found pid a) = Some pid"
| "waits_for (Waited pid a) = Some pid"
| "waits_for (Coded pid ec) = Some pid"

definition waiting :: "('c, 'l, 'x, 'w) pm_threads \<Rightarrow> pid_t \<Rightarrow> thread set" where
  "waiting st pid = {t. \<exists>l. t_locals st t = Some l \<and> waits_for l = Some pid}"

text \<open>
  The map owns live handlers; a handler between \<open>spawn\<close> and its filing is live and owned by its
  thread alone; a thread inside \<open>wait\<close> holds the handler that is filed, and no two threads
  wait for one identifier.
\<close>

definition mem_inv :: "('c, 'x, 'w) process_api \<Rightarrow> ('c, 'l, 'x, 'w) pm_threads \<Rightarrow> bool" where
  "mem_inv api st \<longleftrightarrow>
     t_ioc st \<and>
     (\<forall>pid a. t_table st pid = Some a \<longrightarrow> owns api st pid a) \<and>
     (\<forall>t pid a. t_locals st t = Some (Spawned pid a) \<longrightarrow>
        owns api st pid a \<and> a \<notin> ran (t_table st) \<and>
        (\<forall>u q. t_locals st u = Some (Spawned q a) \<longrightarrow> u = t)) \<and>
     (\<forall>t pid a. t_locals st t = Some (Found pid a) \<or> t_locals st t = Some (Waited pid a) \<longrightarrow>
        t_table st pid = Some a) \<and>
     (\<forall>t u pid. t \<in> waiting st pid \<longrightarrow> u \<in> waiting st pid \<longrightarrow> t = u)"

text \<open>
  The discipline that makes the calls safe: a thread runs one call at a time, and a process
  identifier is removed only by a thread when no other thread is inside \<open>wait\<close> for it.
\<close>

fun disciplined :: "('c, 'l, 'x, 'w) pm_threads \<Rightarrow> ('l, 'x) pm_thread_event \<Rightarrow> bool" where
  "disciplined st (Spawn_Start t opts so se ex) \<longleftrightarrow> t_locals st t = None"
| "disciplined st (Wait_Find t pid) \<longleftrightarrow> t_locals st t = None \<and> waiting st pid = {}"
| "disciplined st (Terminate_Locked pid) \<longleftrightarrow> waiting st pid = {}"
| "disciplined st (Terminate_Children_Locked pid) \<longleftrightarrow> waiting st pid = {}"
| "disciplined st _ \<longleftrightarrow> True"

section \<open>The discipline keeps the memory invariant\<close>

lemma mem_invD:
  assumes "mem_inv api st"
  shows "t_ioc st" and "t_table st pid = Some a \<Longrightarrow> owns api st pid a"
    and "t_locals st t = Some (Spawned pid a) \<Longrightarrow> owns api st pid a"
    and "t_locals st t = Some (Spawned pid a) \<Longrightarrow> t_table st q \<noteq> Some a"
    and "t_locals st t = Some (Spawned pid a) \<Longrightarrow> t_locals st u = Some (Spawned q a) \<Longrightarrow> u = t"
    and "t_locals st t = Some (Found pid a) \<Longrightarrow> t_table st pid = Some a"
    and "t_locals st t = Some (Waited pid a) \<Longrightarrow> t_table st pid = Some a"
    and "t \<in> waiting st pid \<Longrightarrow> u \<in> waiting st pid \<Longrightarrow> t = u"
  using assms unfolding mem_inv_def ran_def by blast+

lemma owns_addr_pid: "owns api st pid a \<Longrightarrow> owns api st q a \<Longrightarrow> pid = q"
  by (auto simp: owns_def)

lemma owns_deref: "owns api st pid a \<Longrightarrow> \<exists>h c. deref st a = Inr h \<and> h_proc h = Some c"
  by (auto simp: owns_def deref_def)

lemma delete_handler_defined:
  assumes "t_heap st a = Some h"
  shows "\<exists>w. delete_handler api a st = Inr (st\<lparr> t_heap := (t_heap st)(a := None), t_world := w \<rparr>)"
  using dtor_defined [of api h "t_world st"] assms by (auto simp: delete_handler_def deref_def)

lemma waiting_updates [simp]:
  "waiting (st\<lparr> t_heap := hp \<rparr>) = waiting st"
  "waiting (st\<lparr> t_world := w \<rparr>) = waiting st"
  "waiting (st\<lparr> t_table := tb \<rparr>) = waiting st"
  "waiting (st\<lparr> t_next := n \<rparr>) = waiting st"
  by (simp_all add: waiting_def fun_eq_iff)

lemma mem_inv_world [simp]: "mem_inv api (st\<lparr> t_world := w \<rparr>) = mem_inv api st"
  by (simp add: mem_inv_def owns_def)

lemma mem_inv_world_table [simp]:
  "mem_inv api (st\<lparr> t_heap := hp, t_world := w, t_table := tb \<rparr>) =
     mem_inv api (st\<lparr> t_heap := hp, t_table := tb \<rparr>)"
  by (simp add: mem_inv_def owns_def)

text \<open>A handler that is replaced in place keeps its child.\<close>

lemma mem_inv_replace:
  assumes "mem_inv api st" "t_heap st a = Some h" "h_proc h' = h_proc h"
  shows "mem_inv api (st\<lparr> t_heap := (t_heap st)(a \<mapsto> h') \<rparr>)"
proof -
  have "owns api st q b \<Longrightarrow> owns api (st\<lparr> t_heap := (t_heap st)(a \<mapsto> h') \<rparr>) q b" for q b
    using assms(2, 3) by (auto simp: owns_def)
  then show ?thesis using assms(1) by (simp add: mem_inv_def)
qed

text \<open>Removing an entry nobody waits for.\<close>

lemma mem_inv_remove:
  assumes inv: "mem_inv api st" and a: "t_table st pid = Some a"
    and free: "\<And>t b. t_locals st t \<noteq> Some (Found pid b) \<and> t_locals st t \<noteq> Some (Waited pid b)"
  shows "mem_inv api (st\<lparr> t_heap := (t_heap st)(a := None), t_table := (t_table st)(pid := None) \<rparr>)"
    (is "mem_inv api ?st'")
proof -
  have own: "owns api st pid a" using inv a by (rule mem_invD)
  have keep: "owns api st q b \<Longrightarrow> b \<noteq> a \<Longrightarrow> owns api ?st' q b" for q b
    by (auto simp: owns_def)
  have "owns api ?st' q b" if "t_table ?st' q = Some b" for q b
  proof -
    from that have q: "q \<noteq> pid" "t_table st q = Some b" by (auto split: if_splits)
    with inv have "owns api st q b" by (blast intro: mem_invD(2))
    with q own keep show ?thesis by (metis owns_addr_pid)
  qed
  moreover have "owns api ?st' q b \<and> b \<notin> ran (t_table ?st')" if "t_locals st t = Some (Spawned q b)" for t q b
  proof -
    have "owns api st q b" "\<And>p. t_table st p \<noteq> Some b" using mem_invD(3,4) [OF inv that] by auto
    then show ?thesis using a keep by (auto simp: ran_def)
  qed
  moreover have "t_table ?st' q = Some b"
    if "t_locals st t = Some (Found q b) \<or> t_locals st t = Some (Waited q b)" for t q b
  proof -
    have "q \<noteq> pid" using free that by blast
    then show ?thesis using mem_invD(6,7) [OF inv] that by auto
  qed
  ultimately show ?thesis
    using mem_invD(1,5,8) [OF inv] by (simp add: mem_inv_def)
qed

lemma remove_keeps:
  assumes inv: "mem_inv api st"
    and free: "\<And>t b. t_locals st t \<noteq> Some (Found pid b) \<and> t_locals st t \<noteq> Some (Waited pid b)"
  shows "\<exists>st'. t_remove_handler api pid st = Inr st' \<and> mem_inv api st'"
proof (cases "t_table st pid")
  case (Some a)
  from mem_invD(2) [OF inv this] obtain h where "t_heap st a = Some h" by (auto simp: owns_def)
  from delete_handler_defined [OF this, of api] obtain w where
    del: "delete_handler api a st = Inr (st\<lparr> t_heap := (t_heap st)(a := None), t_world := w \<rparr>)" ..
  have "mem_inv api (st\<lparr> t_heap := (t_heap st)(a := None), t_world := w,
      t_table := (t_table st)(pid := None) \<rparr>)"
    using mem_inv_remove [OF inv Some free] by simp
  with Some del show ?thesis by (simp add: t_remove_handler_def)
qed (simp add: t_remove_handler_def inv)

lemma not_waiting: "waiting st pid = {} \<Longrightarrow> t_locals st t \<noteq> Some (Found pid b) \<and> t_locals st t \<noteq> Some (Waited pid b)"
  by (force simp: waiting_def)

lemma terminate_keeps:
  assumes inv: "mem_inv api st" and free: "waiting st pid = {}"
  shows "\<exists>st'. t_terminate api pid st = Inr st' \<and> mem_inv api st'"
proof (cases "t_table st pid")
  case None
  then show ?thesis using remove_keeps [OF inv not_waiting [OF free]] by (simp add: t_terminate_def)
next
  case (Some a)
  from mem_invD(2) [OF inv this] obtain h c where h: "t_heap st a = Some h" "h_proc h = Some c"
    by (auto simp: owns_def)
  obtain h' w where t: "Process_Handler_terminate api h (t_world st) = Inr (h', w)"
    using terminate_defined_iff [of api h "t_world st"] h(2) by auto
  then have "h_proc h' = h_proc h" by (rule terminate_keeps_proc)
  then have inv': "mem_inv api (st\<lparr> t_heap := (t_heap st)(a \<mapsto> h'), t_world := w \<rparr>)"
    using mem_inv_replace [OF inv h(1)] by simp
  have "waiting (st\<lparr> t_heap := (t_heap st)(a \<mapsto> h'), t_world := w \<rparr>) pid = {}" using free by simp
  from remove_keeps [OF inv' not_waiting [OF this]] show ?thesis
    using Some h(1) t by (simp add: t_terminate_def deref_def)
qed

text \<open>What a thread may put in its local state.\<close>

lemma waiting_set_local:
  "u \<in> waiting (st\<lparr> t_locals := (t_locals st)(t := lo) \<rparr>) pid \<longleftrightarrow>
     (if u = t then \<exists>l. lo = Some l \<and> waits_for l = Some pid else u \<in> waiting st pid)"
  by (simp add: waiting_def)

lemma mem_inv_set_local:
  assumes inv: "mem_inv api st"
    and sp: "\<And>pid a. lo = Some (Spawned pid a) \<Longrightarrow> owns api st pid a \<and> a \<notin> ran (t_table st) \<and>
               (\<forall>u q. u \<noteq> t \<longrightarrow> t_locals st u \<noteq> Some (Spawned q a))"
    and fo: "\<And>pid a. lo = Some (Found pid a) \<or> lo = Some (Waited pid a) \<Longrightarrow> t_table st pid = Some a"
    and wt: "\<And>l pid. lo = Some l \<Longrightarrow> waits_for l = Some pid \<Longrightarrow> waiting st pid \<subseteq> {t}"
  shows "mem_inv api (st\<lparr> t_locals := (t_locals st)(t := lo) \<rparr>)" (is "mem_inv api ?st'")
proof -
  have owns: "owns api ?st' = owns api st" by (simp add: fun_eq_iff owns_def)
  have "u = v" if "u \<in> waiting ?st' pid" "v \<in> waiting ?st' pid" for u v pid
    using that wt mem_invD(8) [OF inv, of u pid v] unfolding waiting_set_local
    by (auto split: if_splits)
  moreover have "owns api st pid a \<and> a \<notin> ran (t_table st) \<and>
      (\<forall>v q. t_locals ?st' v = Some (Spawned q a) \<longrightarrow> v = u)"
    if "t_locals ?st' u = Some (Spawned pid a)" for u pid a
    using that sp mem_invD(3,4,5) [OF inv] by (auto split: if_splits simp: ran_def)
  moreover have "t_table st pid = Some a"
    if "t_locals ?st' u = Some (Found pid a) \<or> t_locals ?st' u = Some (Waited pid a)" for u pid a
    using that fo mem_invD(6,7) [OF inv] by (auto split: if_splits)
  ultimately show ?thesis
    using mem_invD(1,2) [OF inv] unfolding mem_inv_def owns by simp
qed

lemmas mem_inv_clear_local = mem_inv_set_local [where lo = None, simplified]

lemma mem_inv_fresh:
  assumes "mem_inv api st"
  shows "mem_inv api (st\<lparr> t_heap := (t_heap st)(t_next st := x), t_next := Suc (t_next st) \<rparr>)"
proof -
  have "owns api st q b \<Longrightarrow>
      owns api (st\<lparr> t_heap := (t_heap st)(t_next st := x), t_next := Suc (t_next st) \<rparr>) q b" for q b
    by (auto simp: owns_def)
  then show ?thesis using assms by (simp add: mem_inv_def)
qed

lemma spawn_start_keeps:
  assumes inv: "mem_inv api st" and idle: "t_locals st t = None"
  shows "\<exists>st'. t_spawn_start api t opts so se ex st = Inr st' \<and> mem_inv api st'"
proof -
  let ?h = "Process_Manager_make_handler so se ex \<lparr> pm_ioc = t_ioc st, pm_handlers = Map.empty \<rparr>"
  have "h_ioc ?h" using mem_invD(1) [OF inv] by simp
  from spawn_defined [OF this] obtain pid h w where
    sp: "Process_Handler_spawn api opts ?h (t_world st) = Inr (pid, h, w)" by metis
  let ?st = "st\<lparr> t_heap := (t_heap st)(t_next st \<mapsto> h), t_next := Suc (t_next st), t_world := w \<rparr>"
  have inv': "mem_inv api ?st" using mem_inv_fresh [OF inv] by simp
  show ?thesis
  proof (cases "pid = - 1")
    case True
    have "t_heap ?st (t_next st) = Some h" by simp
    from delete_handler_defined [OF this, of api] obtain w' where
      del: "delete_handler api (t_next st) ?st =
        Inr (?st\<lparr> t_heap := (t_heap ?st)(t_next st := None), t_world := w' \<rparr>)" ..
    have "mem_inv api (?st\<lparr> t_heap := (t_heap ?st)(t_next st := None), t_world := w' \<rparr>)"
      using mem_inv_fresh [OF inv, of None] by (simp add: mem_inv_def owns_def)
    with True sp del show ?thesis by (simp add: t_spawn_start_def Let_def)
  next
    case False
    then have "owns api ?st pid (t_next st)" using spawn_proc [OF sp] by (auto simp: owns_def)
    moreover have "t_next st \<notin> ran (t_table ?st)"
      using mem_invD(2) [OF inv] by (auto simp: ran_def owns_def)
    moreover have "t_locals ?st u \<noteq> Some (Spawned q (t_next st))" for u q
      using mem_invD(3) [OF inv, of u q "t_next st"] by (auto simp: owns_def)
    ultimately have "mem_inv api (?st\<lparr> t_locals := (t_locals ?st)(t \<mapsto> Spawned pid (t_next st)) \<rparr>)"
      by (intro mem_inv_set_local [OF inv']) auto
    with False sp show ?thesis by (simp add: t_spawn_start_def Let_def)
  qed
qed

text \<open>Deleting a handler that neither the map nor a thread holds.\<close>

lemma mem_inv_delete_unshared:
  assumes inv: "mem_inv api st" and "\<And>q. t_table st q \<noteq> Some a"
    and "\<And>u q. t_locals st u \<noteq> Some (Spawned q a)"
  shows "mem_inv api (st\<lparr> t_heap := (t_heap st)(a := None) \<rparr>)"
proof -
  have "owns api st q b \<Longrightarrow> b \<noteq> a \<Longrightarrow> owns api (st\<lparr> t_heap := (t_heap st)(a := None) \<rparr>) q b" for q b
    by (auto simp: owns_def)
  then show ?thesis using assms by (simp add: mem_inv_def) metis
qed

text \<open>Filing a handler hands it from the thread to the map.\<close>

lemma mem_inv_file:
  assumes inv: "mem_inv api st" and own: "owns api st pid a" and new: "t_table st pid = None"
    and alone: "\<And>u q. t_locals st u \<noteq> Some (Spawned q a)"
  shows "mem_inv api (st\<lparr> t_table := (t_table st)(pid \<mapsto> a) \<rparr>)"
proof -
  have owns: "owns api (st\<lparr> t_table := tb \<rparr>) = owns api st" for tb by (simp add: fun_eq_iff owns_def)
  have "b \<notin> ran ((t_table st)(pid \<mapsto> a))" if "t_locals st u = Some (Spawned q b)" for u q b
    using mem_invD(4) [OF inv that] alone that by (auto simp: ran_def)
  moreover have "((t_table st)(pid \<mapsto> a)) q = Some b"
    if "t_locals st u = Some (Found q b) \<or> t_locals st u = Some (Waited q b)" for u q b
    using mem_invD(6,7) [OF inv] that new by (metis fun_upd_other option.distinct(1))
  ultimately show ?thesis
    using mem_invD(1,2,3,5,8) [OF inv] own unfolding mem_inv_def owns by simp
qed

lemma spawn_file_keeps:
  assumes inv: "mem_inv api st"
  shows "\<exists>st'. t_spawn_file api eager t st = Inr st' \<and> mem_inv api st'"
proof (cases "\<exists>pid a. t_locals st t = Some (Spawned pid a)")
  case True
  then obtain pid a where l: "t_locals st t = Some (Spawned pid a)" by blast
  let ?st = "st\<lparr> t_locals := (t_locals st)(t := None) \<rparr>"
  have inv': "mem_inv api ?st" using inv by (rule mem_inv_clear_local)
  have own: "owns api ?st pid a" and tab: "t_table ?st q \<noteq> Some a" for q
    using mem_invD(3,4) [OF inv l] by (auto simp: owns_def)
  have alone: "t_locals ?st u \<noteq> Some (Spawned q a)" for u q using mem_invD(5) [OF inv l] by auto
  show ?thesis
  proof (cases "t_table st pid")
    case None
    then have "mem_inv api (?st\<lparr> t_table := (t_table ?st)(pid \<mapsto> a) \<rparr>)"
      by (intro mem_inv_file [OF inv' own _ alone]) simp
    with None l show ?thesis by (simp add: t_spawn_file_def Let_def)
  next
    case (Some b)
    from own obtain h where "t_heap ?st a = Some h" by (auto simp: owns_def)
    from delete_handler_defined [OF this, of api] obtain w where
      "delete_handler api a ?st = Inr (?st\<lparr> t_heap := (t_heap ?st)(a := None), t_world := w \<rparr>)" ..
    then show ?thesis
      using Some l inv' mem_inv_delete_unshared [OF inv' tab alone]
      by (simp add: t_spawn_file_def Let_def)
  qed
qed (use inv in \<open>auto simp: t_spawn_file_def split: option.splits pm_local.splits\<close>)

lemma wait_find_keeps:
  assumes "mem_inv api st" "t_locals st t = None" "waiting st pid = {}"
  shows "mem_inv api (t_wait_find t pid st)"
  using assms by (auto simp: t_wait_find_def split: option.splits intro!: mem_inv_set_local)

lemma own_local_waiting:
  "mem_inv api st \<Longrightarrow> t_locals st t = Some l \<Longrightarrow> waits_for l = Some pid \<Longrightarrow> waiting st pid \<subseteq> {t}"
  using mem_invD(8) [of api st t pid] by (auto simp: waiting_def)

lemma wait_block_keeps:
  assumes inv: "mem_inv api st"
  shows "\<exists>st'. t_wait_block api t st = Inr st' \<and> mem_inv api st'"
proof (cases "\<exists>pid a. t_locals st t = Some (Found pid a)")
  case True
  then obtain pid a where l: "t_locals st t = Some (Found pid a)" by blast
  then have a: "t_table st pid = Some a" by (rule mem_invD [OF inv])
  then obtain h where h: "deref st a = Inr h" using owns_deref mem_invD(2) [OF inv] by blast
  let ?st = "st\<lparr> t_world := Process_Handler_wait api h (t_world st) \<rparr>"
  have "mem_inv api (?st\<lparr> t_locals := (t_locals ?st)(t \<mapsto> Waited pid a) \<rparr>)"
    using inv a own_local_waiting [OF inv l] by (intro mem_inv_set_local) auto
  with l h show ?thesis by (simp add: t_wait_block_def)
qed (use inv in \<open>auto simp: t_wait_block_def split: option.splits pm_local.splits\<close>)

lemma wait_code_keeps:
  assumes inv: "mem_inv api st"
  shows "\<exists>st'. t_wait_code api t st = Inr st' \<and> mem_inv api st'"
proof (cases "\<exists>pid a. t_locals st t = Some (Waited pid a)")
  case True
  then obtain pid a where l: "t_locals st t = Some (Waited pid a)" by blast
  then have a: "t_table st pid = Some a" by (rule mem_invD [OF inv])
  then obtain h where h: "deref st a = Inr h" using owns_deref mem_invD(2) [OF inv] by blast
  have "mem_inv api (st\<lparr> t_locals := (t_locals st)
      (t \<mapsto> Coded pid (Process_Handler_exit_code api h (t_world st))) \<rparr>)"
    using inv a own_local_waiting [OF inv l] by (intro mem_inv_set_local) auto
  with l h show ?thesis by (simp add: t_wait_code_def)
qed (use inv in \<open>auto simp: t_wait_code_def split: option.splits pm_local.splits\<close>)

lemma wait_remove_keeps:
  assumes inv: "mem_inv api st"
  shows "\<exists>st'. t_wait_remove api t st = Inr st' \<and> mem_inv api st'"
proof (cases "\<exists>pid ec. t_locals st t = Some (Coded pid ec)")
  case True
  then obtain pid ec where l: "t_locals st t = Some (Coded pid ec)" by blast
  let ?st = "st\<lparr> t_locals := (t_locals st)(t := None) \<rparr>"
  have "u \<notin> waiting ?st pid" for u
    using own_local_waiting [OF inv l, of pid] by (auto simp: waiting_set_local)
  then have "waiting ?st pid = {}" by blast
  from remove_keeps [OF mem_inv_clear_local [OF inv] not_waiting [OF this]] l
  show ?thesis by (simp add: t_wait_remove_def)
qed (use inv in \<open>auto simp: t_wait_remove_def split: option.splits pm_local.splits\<close>)

lemma disciplined_keeps:
  "mem_inv api st \<Longrightarrow> disciplined st e \<Longrightarrow>
     \<exists>st'. pm_thread_call api eager e st = Inr st' \<and> mem_inv api st'"
  by (cases e)
    (simp_all add: spawn_start_keeps spawn_file_keeps wait_find_keeps wait_block_keeps
      wait_code_keeps wait_remove_keeps terminate_keeps remove_keeps not_waiting)

section \<open>All interleavings\<close>

text \<open>The steps of all threads in any order; the world may change between any two of them.\<close>

definition pm_threads_initial :: "('c, 'l, 'x, 'w) pm_threads \<Rightarrow> bool" where
  "pm_threads_initial st \<longleftrightarrow>
     t_ioc st \<and> t_heap st = Map.empty \<and> t_table st = Map.empty \<and> t_locals st = Map.empty"

inductive pm_thread_step ::
  "('c, 'x, 'w) process_api \<Rightarrow> bool \<Rightarrow> ('c, 'l, 'x, 'w) pm_threads \<Rightarrow>
     ('l, 'x) pm_thread_event option \<Rightarrow> ('c, 'l, 'x, 'w) pm_threads \<Rightarrow> bool"
  for api :: "('c, 'x, 'w) process_api" and eager :: bool where
  thread_moves: "disciplined st e \<Longrightarrow> pm_thread_call api eager e st = Inr st' \<Longrightarrow>
     pm_thread_step api eager st (Some e) st'"
| world_moves: "pm_thread_step api eager st None (st\<lparr> t_world := w \<rparr>)"

lemma mem_inv_initial: "pm_threads_initial st \<Longrightarrow> mem_inv api st"
  by (simp add: pm_threads_initial_def mem_inv_def waiting_def)

lemma pm_thread_step_inv:
  assumes "mem_inv api st" "pm_thread_step api eager st e st'"
  shows "mem_inv api st'"
  using assms(2)
proof (cases rule: pm_thread_step.cases)
  case (thread_moves f)
  then show ?thesis using disciplined_keeps [OF assms(1), of f eager] by auto
qed (use assms(1) in simp)

interpretation pm_thread_sys: invariant_system
  pm_threads_initial "pm_thread_step api eager" "mem_inv api" for api eager
  by unfold_locales (auto intro: mem_inv_initial pm_thread_step_inv)

text \<open>
  C19: in every interleaving of the threads' lock-protected stretches in which a process identifier
  is removed or waited for only while no other thread is inside \<open>wait\<close> for it, every next step is
  defined: no deleted handler is used and none is deleted twice.
\<close>

theorem pm_threads_memory_safe:
  assumes "reach pm_threads_initial (pm_thread_step api eager) st" and "disciplined st e"
  shows "\<exists>st'. pm_thread_call api eager e st = Inr st'"
  using disciplined_keeps [OF pm_thread_sys.reach_inv [OF assms(1)] assms(2)] by blast

text \<open>A run of steps, and a concrete state before it.\<close>

fun pm_thread_run ::
  "('c, 'x, 'w) process_api \<Rightarrow> bool \<Rightarrow> ('l, 'x) pm_thread_event list \<Rightarrow>
     ('c, 'l, 'x, 'w) pm_threads \<Rightarrow> Undefined + ('c, 'l, 'x, 'w) pm_threads" where
  "pm_thread_run api eager [] st = Inr st"
| "pm_thread_run api eager (e # es) st =
     and_then (pm_thread_call api eager e st) (pm_thread_run api eager es)"

definition toy_threads :: "(nat, nat, nat, nat list) pm_threads" where
  "toy_threads =
     \<lparr> t_ioc = True, t_heap = Map.empty, t_next = 0, t_table = Map.empty, t_locals = Map.empty,
       t_world = [] \<rparr>"

lemma toy_threads_initial: "pm_threads_initial toy_threads"
  by (simp add: pm_threads_initial_def toy_threads_def)

text \<open>Two threads: the second has spawned and filed a process, the first is about to wait for it.\<close>

abbreviation toy_spawn :: "(nat, nat) pm_thread_event list" where
  "toy_spawn \<equiv>
     [Spawn_Start 2 (default_Process_Options\<lparr> exe := ''a'' \<rparr>) None None None, Spawn_File 2]"

fun disciplined_run ::
  "('c, 'x, 'w) process_api \<Rightarrow> bool \<Rightarrow> ('l, 'x) pm_thread_event list \<Rightarrow>
     ('c, 'l, 'x, 'w) pm_threads \<Rightarrow> bool" where
  "disciplined_run api eager [] st = True"
| "disciplined_run api eager (e # es) st =
     (disciplined st e \<and>
      (case pm_thread_call api eager e st of Inl _ \<Rightarrow> False | Inr st' \<Rightarrow> disciplined_run api eager es st'))"

lemma reach_thread:
  "reach init (pm_thread_step api eager) st \<Longrightarrow> disciplined st e \<Longrightarrow>
     pm_thread_call api eager e st = Inr st' \<Longrightarrow> reach init (pm_thread_step api eager) st'"
  by (erule reach_step) (rule thread_moves)

lemma reach_disciplined_run:
  "reach init (pm_thread_step api eager) st \<Longrightarrow> disciplined_run api eager es st \<Longrightarrow>
     \<exists>st'. pm_thread_run api eager es st = Inr st' \<and> reach init (pm_thread_step api eager) st'"
  by (induction es arbitrary: st)
    (auto split: sum.splits intro: reach_thread)

lemmas toy_simps = toy_threads_def toy_api_def t_defs Let_def default_Process_Options_def
  Process_Manager_make_handler_def Process_Handler_new_def Process_Handler_stdout_callback_def
  Process_Handler_stderr_callback_def Process_Handler_exit_callback_def Process_Handler_spawn_def
  Process_Handler_terminate_def Process_Handler_dtor_def Process_Handler_wait_def
  Process_Handler_exit_code_def Process_Handler_stream_defs

lemma toy_spawn_runs:
  "\<exists>st a. pm_thread_run toy_api False toy_spawn toy_threads = Inr st \<and>
     reach pm_threads_initial (pm_thread_step toy_api False) st \<and>
     t_table st 5 = Some a \<and> t_locals st = Map.empty"
proof -
  have "reach pm_threads_initial (pm_thread_step toy_api False) toy_threads"
    by (rule reach_init) (rule toy_threads_initial)
  moreover have "disciplined_run toy_api False toy_spawn toy_threads" by (simp add: toy_simps)
  ultimately obtain st where
    st: "pm_thread_run toy_api False toy_spawn toy_threads = Inr st"
      "reach pm_threads_initial (pm_thread_step toy_api False) st"
    using reach_disciplined_run by blast
  moreover have "t_table st 5 = Some 0 \<and> t_locals st = Map.empty"
    using st(1) by (auto simp: toy_simps)
  ultimately show ?thesis by blast
qed

theorem pm_threads_memory_safe_witness:
  "\<exists>st st'. pm_thread_run toy_api False (toy_spawn @ [Wait_Find 1 5]) toy_threads = Inr st \<and>
     pm_thread_call toy_api False (Wait_Block 1) st = Inr st'"
proof -
  let ?es = "toy_spawn @ [Wait_Find 1 5]"
  have "reach pm_threads_initial (pm_thread_step toy_api False) toy_threads"
    by (rule reach_init) (rule toy_threads_initial)
  moreover have "disciplined_run toy_api False ?es toy_threads" by (simp add: toy_simps waiting_def)
  ultimately obtain st where
    "pm_thread_run toy_api False ?es toy_threads = Inr st"
    "reach pm_threads_initial (pm_thread_step toy_api False) st"
    using reach_disciplined_run by blast
  with pm_threads_memory_safe [of toy_api False st "Wait_Block 1"] show ?thesis by auto
qed

text \<open>
  C21: the calls are not safe without that discipline. When a thread has looked a process up in
  \<open>wait\<close> and released the mutex, \<open>terminate\<close> of the same identifier by another thread deletes the
  handler, and the first thread goes on to use the deleted object.
\<close>

theorem pm_wait_terminate_race:
  assumes "mem_inv api st" and "t_table st pid = Some a" and "t_locals st t = None"
  shows "pm_thread_run api eager [Wait_Find t pid, Terminate_Locked pid, Wait_Block t] st =
     Inl Dangling_Pointer"
proof -
  let ?st = "t_wait_find t pid st"
  from mem_invD(2) [OF assms(1,2)] obtain h c where h: "t_heap st a = Some h" "h_proc h = Some c"
    by (auto simp: owns_def)
  obtain h' w where t: "Process_Handler_terminate api h (t_world st) = Inr (h', w)"
    using terminate_defined_iff [of api h "t_world st"] h(2) by auto
  obtain w' where "Process_Handler_dtor api h' w = Inr w'" using dtor_defined [of api h' w] by blast
  with assms(2) h t show ?thesis
    by (simp add: t_wait_find_def t_terminate_def deref_def t_remove_handler_def
        delete_handler_def t_wait_block_def)
qed

theorem pm_wait_terminate_race_witness:
  "\<exists>st. pm_thread_run toy_api False toy_spawn toy_threads = Inr st \<and>
     pm_thread_run toy_api False [Wait_Find 1 5, Terminate_Locked 5, Wait_Block 1] st =
       Inl Dangling_Pointer"
proof -
  from toy_spawn_runs obtain st a where
    st: "pm_thread_run toy_api False toy_spawn toy_threads = Inr st"
      "reach pm_threads_initial (pm_thread_step toy_api False) st"
      "t_table st 5 = Some a" "t_locals st = Map.empty" by blast
  have "pm_thread_run toy_api False [Wait_Find 1 5, Terminate_Locked 5, Wait_Block 1] st =
      Inl Dangling_Pointer"
    using pm_thread_sys.reach_inv [OF st(2)] st(3,4) by (intro pm_wait_terminate_race) auto
  with st(1) show ?thesis by blast
qed

section \<open>The steps of one call amount to the call\<close>

definition abs_manager :: "('c, 'l, 'x, 'w) pm_threads \<Rightarrow> ('c, 'l, 'x) Process_Manager" where
  "abs_manager st =
     \<lparr> pm_ioc = t_ioc st, pm_handlers = (\<lambda>pid. Option.bind (t_table st pid) (t_heap st)) \<rparr>"

text \<open>What \<open>spawn\<close> and \<open>wait\<close> return, read off the local state before their last step.\<close>

definition spawn_result :: "thread \<Rightarrow> ('c, 'l, 'x, 'w) pm_threads \<Rightarrow> pid_t" where
  "spawn_result t st = (case t_locals st t of Some (Spawned pid a) \<Rightarrow> pid | _ \<Rightarrow> - 1)"

definition wait_result :: "thread \<Rightarrow> ('c, 'l, 'x, 'w) pm_threads \<Rightarrow> int" where
  "wait_result t st = (case t_locals st t of Some (Coded pid ec) \<Rightarrow> ec | _ \<Rightarrow> - 1)"

lemma abs_manager_simps [simp]:
  "pm_ioc (abs_manager st) = t_ioc st"
  "pm_handlers (abs_manager st) pid = Option.bind (t_table st pid) (t_heap st)"
  "abs_manager (st\<lparr> t_world := w \<rparr>) = abs_manager st"
  "abs_manager (st\<lparr> t_locals := ls \<rparr>) = abs_manager st"
  "abs_manager (st\<lparr> t_next := n \<rparr>) = abs_manager st"
  "abs_manager (st\<lparr> t_next := n, t_heap := hp \<rparr>) = abs_manager (st\<lparr> t_heap := hp \<rparr>)"
  by (simp_all add: abs_manager_def)

lemma table_inj:
  "mem_inv api st \<Longrightarrow> t_table st pid = Some a \<Longrightarrow> t_table st q = Some a \<Longrightarrow> q = pid"
  using mem_invD(2) owns_addr_pid by metis

lemma abs_filed:
  "mem_inv api st \<Longrightarrow> t_table st pid = Some a \<Longrightarrow>
     \<exists>h c. t_heap st a = Some h \<and> h_proc h = Some c \<and> pm_handlers (abs_manager st) pid = Some h"
  using mem_invD(2) [of api st pid a] by (auto simp: owns_def)

lemma abs_remove:
  assumes "mem_inv api st" "t_table st pid = Some a"
  shows "abs_manager (st\<lparr> t_heap := (t_heap st)(a := x), t_table := (t_table st)(pid := None) \<rparr>) =
    (abs_manager st)\<lparr> pm_handlers := (pm_handlers (abs_manager st))(pid := None) \<rparr>"
proof -
  have "Option.bind (((t_table st)(pid := None)) q) ((t_heap st)(a := x)) =
      ((pm_handlers (abs_manager st))(pid := None)) q" for q
    using table_inj [OF assms, of q] by (cases "t_table st q") auto
  then show ?thesis by (simp add: abs_manager_def fun_eq_iff)
qed

lemma abs_replace:
  assumes "mem_inv api st" "t_table st pid = Some a"
  shows "abs_manager (st\<lparr> t_heap := (t_heap st)(a \<mapsto> h) \<rparr>) =
    (abs_manager st)\<lparr> pm_handlers := (pm_handlers (abs_manager st))(pid \<mapsto> h) \<rparr>"
proof -
  have "Option.bind (t_table st q) ((t_heap st)(a \<mapsto> h)) =
      ((pm_handlers (abs_manager st))(pid \<mapsto> h)) q" for q
    using table_inj [OF assms, of q] assms(2) by (cases "t_table st q") auto
  then show ?thesis by (simp add: abs_manager_def fun_eq_iff)
qed

lemma abs_world_table [simp]:
  "abs_manager (st\<lparr> t_heap := hp, t_world := w, t_table := tb \<rparr>) =
     abs_manager (st\<lparr> t_heap := hp, t_table := tb \<rparr>)"
  by (simp add: abs_manager_def)

text \<open>\<open>remove_handler\<close> on addresses is \<open>remove_handler\<close> on handlers.\<close>

lemma remove_refines:
  assumes inv: "mem_inv api st"
  shows "\<exists>st'. t_remove_handler api pid st = Inr st' \<and> t_locals st' = t_locals st \<and>
    Process_Manager_remove_handler api pid (abs_manager st) (t_world st) =
      Inr (abs_manager st', t_world st')"
proof (cases "t_table st pid")
  case None
  then show ?thesis by (simp add: t_remove_handler_def Process_Manager_remove_handler_def)
next
  case (Some a)
  from abs_filed [OF inv this] obtain h where
    h: "t_heap st a = Some h" "pm_handlers (abs_manager st) pid = Some h" by blast
  obtain w where "Process_Handler_dtor api h (t_world st) = Inr w" using dtor_defined by metis
  with Some h abs_remove [OF inv Some, of None] show ?thesis
    by (simp add: t_remove_handler_def delete_handler_def deref_def Process_Manager_remove_handler_def)
qed

lemma terminate_refines:
  assumes inv: "mem_inv api st"
  shows "\<exists>st'. t_terminate api pid st = Inr st' \<and>
    Process_Manager_terminate api pid (abs_manager st) (t_world st) =
      Inr (abs_manager st', t_world st')"
proof (cases "t_table st pid")
  case None
  then show ?thesis
    using remove_refines [OF inv, of pid]
    by (auto simp: t_terminate_def Process_Manager_terminate_def Process_Manager_find_handler_def)
next
  case (Some a)
  from abs_filed [OF inv this] obtain h c where
    h: "t_heap st a = Some h" "h_proc h = Some c" "pm_handlers (abs_manager st) pid = Some h"
    by blast
  obtain h' w where t: "Process_Handler_terminate api h (t_world st) = Inr (h', w)"
    using terminate_defined_iff [of api h "t_world st"] h(2) by auto
  let ?st = "st\<lparr> t_heap := (t_heap st)(a \<mapsto> h'), t_world := w \<rparr>"
  have "mem_inv api ?st" using mem_inv_replace [OF inv h(1) terminate_keeps_proc [OF t]] by simp
  from remove_refines [OF this, of pid] show ?thesis
    using Some h t abs_replace [OF inv Some, of h']
    by (auto simp: t_terminate_def deref_def Process_Manager_terminate_def
        Process_Manager_find_handler_def)
qed

lemma wait_refines:
  assumes inv: "mem_inv api st" and idle: "t_locals st t = None"
  shows "\<exists>st1 st2.
    pm_thread_run api eager [Wait_Find t pid, Wait_Block t, Wait_Code t] st = Inr st1 \<and>
    t_wait_remove api t st1 = Inr st2 \<and>
    Process_Manager_wait api pid (abs_manager st) (t_world st) =
      Inr (wait_result t st1, abs_manager st2, t_world st2)"
proof (cases "t_table st pid")
  case None
  then show ?thesis using idle
    by (simp add: t_wait_find_def t_wait_block_def t_wait_code_def t_wait_remove_def wait_result_def
        Process_Manager_wait_def Process_Manager_find_handler_def)
next
  case (Some a)
  from abs_filed [OF inv this] obtain h where
    h: "t_heap st a = Some h" "pm_handlers (abs_manager st) pid = Some h" by blast
  let ?w = "Process_Handler_wait api h (t_world st)"
  let ?l = "Coded pid (Process_Handler_exit_code api h ?w)"
  let ?st = "st\<lparr> t_world := ?w \<rparr>"
  have run: "pm_thread_run api eager [Wait_Find t pid, Wait_Block t, Wait_Code t] st =
      Inr (st\<lparr> t_locals := (t_locals st)(t \<mapsto> ?l), t_world := ?w \<rparr>)"
    using Some h by (simp add: t_wait_find_def t_wait_block_def t_wait_code_def deref_def)
  have eq: "st\<lparr> t_world := ?w, t_locals := (t_locals st)(t := None) \<rparr> = ?st"
    using idle by (simp add: fun_upd_idem)
  from inv have "mem_inv api ?st" by simp
  from remove_refines [OF this, of pid] h(2) idle show ?thesis
    unfolding run
    by (auto simp: t_wait_remove_def wait_result_def eq Process_Manager_wait_def
        Process_Manager_find_handler_def Let_def)
qed

lemma abs_fresh:
  assumes "mem_inv api st"
  shows "abs_manager (st\<lparr> t_heap := (t_heap st)(t_next st := x), t_next := n, t_world := w \<rparr>) =
    abs_manager st"
proof -
  have "Option.bind (t_table st q) ((t_heap st)(t_next st := x)) = Option.bind (t_table st q) (t_heap st)" for q
    using mem_invD(2) [OF assms, of q] by (cases "t_table st q") (auto simp: owns_def)
  then show ?thesis by (simp add: abs_manager_def fun_eq_iff)
qed

lemma make_handler_threads:
  "Process_Manager_make_handler so se ex \<lparr> pm_ioc = t_ioc st, pm_handlers = Map.empty \<rparr> =
     Process_Manager_make_handler so se ex (abs_manager st)"
  by (simp add: Process_Manager_make_handler_def)

lemma abs_file:
  assumes inv: "mem_inv api st" and new: "t_table st pid = None"
  shows "abs_manager (st\<lparr> t_heap := (t_heap st)(t_next st \<mapsto> h), t_next := n, t_world := w,
      t_table := (t_table st)(pid \<mapsto> t_next st) \<rparr>) =
    (abs_manager st)\<lparr> pm_handlers := (pm_handlers (abs_manager st))(pid \<mapsto> h) \<rparr>"
proof -
  have "Option.bind (((t_table st)(pid \<mapsto> t_next st)) q) ((t_heap st)(t_next st \<mapsto> h)) =
      ((pm_handlers (abs_manager st))(pid \<mapsto> h)) q" for q
    using mem_invD(2) [OF inv, of q] by (cases "t_table st q") (auto simp: owns_def)
  then show ?thesis by (simp add: abs_manager_def fun_eq_iff)
qed

lemma spawn_refines:
  assumes inv: "mem_inv api st" and idle: "t_locals st t = None"
  shows "\<exists>st1 st2. t_spawn_start api t opts so se ex st = Inr st1 \<and>
    t_spawn_file api eager t st1 = Inr st2 \<and>
    Process_Manager_spawn api eager opts so se ex (abs_manager st) (t_world st) =
      Inr (spawn_result t st1, abs_manager st2, t_world st2)"
proof -
  let ?h = "Process_Manager_make_handler so se ex (abs_manager st)"
  have "h_ioc ?h" using mem_invD(1) [OF inv] by simp
  from spawn_defined [OF this] obtain pid h w where
    sp: "Process_Handler_spawn api opts ?h (t_world st) = Inr (pid, h, w)" by metis
  obtain w' where d: "Process_Handler_dtor api h w = Inr w'" using dtor_defined by metis
  let ?st = "st\<lparr> t_heap := (t_heap st)(t_next st \<mapsto> h), t_next := Suc (t_next st), t_world := w \<rparr>"
  show ?thesis
  proof (cases "pid = - 1")
    case True
    then show ?thesis
      using sp d idle abs_fresh [OF inv]
      by (simp add: t_spawn_start_def Let_def make_handler_threads delete_handler_def deref_def
          t_spawn_file_def spawn_result_def Process_Manager_spawn_def)
  next
    case False
    have start: "t_spawn_start api t opts so se ex st =
        Inr (?st\<lparr> t_locals := (t_locals st)(t \<mapsto> Spawned pid (t_next st)) \<rparr>)"
      using False sp by (simp add: t_spawn_start_def Let_def make_handler_threads)
    show ?thesis
    proof (cases "t_table st pid")
      case None
      then show ?thesis
        unfolding start using False sp idle abs_file [OF inv None]
        by (simp add: t_spawn_file_def Let_def spawn_result_def Process_Manager_spawn_def fun_upd_idem)
    next
      case (Some b)
      from abs_filed [OF inv this] obtain h0 where "pm_handlers (abs_manager st) pid = Some h0" by blast
      then show ?thesis
        unfolding start using Some False sp d idle abs_fresh [OF inv]
        by (simp add: t_spawn_file_def Let_def spawn_result_def Process_Manager_spawn_def
            delete_handler_def deref_def fun_upd_idem)
    qed
  qed
qed

text \<open>
  C20: in every reachable state of the threads, the steps of a \<open>spawn\<close>, a \<open>wait\<close> or a \<open>terminate\<close>
  that no other thread interrupts return the value, and leave the handlers and the world, that the
  call has in the sequential model of the manager.
\<close>

theorem pm_threads_refine_calls:
  assumes "reach pm_threads_initial (pm_thread_step api eager) st" and "t_locals st t = None"
  shows "(\<exists>st1 st2. t_spawn_start api t opts so se ex st = Inr st1 \<and>
      t_spawn_file api eager t st1 = Inr st2 \<and>
      Process_Manager_spawn api eager opts so se ex (abs_manager st) (t_world st) =
        Inr (spawn_result t st1, abs_manager st2, t_world st2)) \<and>
    (\<exists>st1 st2. pm_thread_run api eager [Wait_Find t pid, Wait_Block t, Wait_Code t] st = Inr st1 \<and>
      t_wait_remove api t st1 = Inr st2 \<and>
      Process_Manager_wait api pid (abs_manager st) (t_world st) =
        Inr (wait_result t st1, abs_manager st2, t_world st2)) \<and>
    (\<exists>st'. t_terminate api pid st = Inr st' \<and>
      Process_Manager_terminate api pid (abs_manager st) (t_world st) =
        Inr (abs_manager st', t_world st'))"
proof -
  have inv: "mem_inv api st" using assms(1) by (rule pm_thread_sys.reach_inv)
  show ?thesis
    by (intro conjI spawn_refines [OF inv assms(2)] wait_refines [OF inv assms(2)]
        terminate_refines [OF inv])
qed

theorem pm_threads_refine_calls_witness:
  "\<exists>st st'. pm_thread_run toy_api False toy_spawn toy_threads = Inr st \<and>
     t_terminate toy_api 5 st = Inr st' \<and>
     Process_Manager_terminate toy_api 5 (abs_manager st) (t_world st) =
       Inr (abs_manager st', t_world st')"
proof -
  from toy_spawn_runs obtain st where
    st: "pm_thread_run toy_api False toy_spawn toy_threads = Inr st"
      "reach pm_threads_initial (pm_thread_step toy_api False) st" "t_locals st = Map.empty" by blast
  with pm_threads_refine_calls [OF st(2), of 1 _ _ _ _ 5] show ?thesis by auto
qed

end
