(* ===== verification/Path_Normalize.thy ===== *)
theory Path_Normalize
  imports Prelude
begin

text \<open>
  \<open>src/foundation/path_normalize.h\<close>: lexical normalisation of a path. The three nested loops of
  the code are recursive functions over the same index \<open>pos\<close>. The specification gives a path a
  meaning (whether it is absolute, how many directories it climbs above its start, which names it
  descends through), and the routine is shown to compute the canonical path of that meaning.
\<close>

section \<open>The code\<close>

abbreviation (input) dot :: string where "dot \<equiv> ''.''"
abbreviation (input) dotdot :: string where "dotdot \<equiv> ''..''"

function skip_separators :: "string \<Rightarrow> char \<Rightarrow> nat \<Rightarrow> nat" where
  "skip_separators path sep pos =
     (if pos < length path \<and> path ! pos = sep then skip_separators path sep (Suc pos) else pos)"
  by auto
termination by (relation "measure (\<lambda>(path, sep, pos). length path - pos)") auto

function token_end :: "string \<Rightarrow> char \<Rightarrow> nat \<Rightarrow> nat" where
  "token_end path sep pos =
     (if pos < length path \<and> path ! pos \<noteq> sep then token_end path sep (Suc pos) else pos)"
  by auto
termination by (relation "measure (\<lambda>(path, sep, pos). length path - pos)") auto

text \<open>What one token does to the vector \<open>segments\<close>.\<close>

definition push_token :: "bool \<Rightarrow> string list \<Rightarrow> string \<Rightarrow> string list" where
  "push_token is_absolute segments token =
     (if token = dot then segments
      else if token = dotdot then
        (if segments \<noteq> [] \<and> last segments \<noteq> dotdot then butlast segments
         else if \<not> is_absolute then segments @ [token]
         else segments)
      else segments @ [token])"

declare skip_separators.simps [simp del] token_end.simps [simp del]

lemma skip_separators_ge: "pos \<le> skip_separators path sep pos"
proof (induction path sep pos rule: skip_separators.induct)
  case (1 path sep pos)
  then show ?case
    by (cases "pos < length path \<and> path ! pos = sep")
       (auto simp: skip_separators.simps [of path sep pos])
qed

lemma token_end_ge: "pos \<le> token_end path sep pos"
proof (induction path sep pos rule: token_end.induct)
  case (1 path sep pos)
  then show ?case
    by (cases "pos < length path \<and> path ! pos \<noteq> sep")
       (auto simp: token_end.simps [of path sep pos])
qed

lemma skip_separators_stop:
  "skip_separators path sep pos < length path \<Longrightarrow> path ! skip_separators path sep pos \<noteq> sep"
proof (induction path sep pos rule: skip_separators.induct)
  case (1 path sep pos)
  then show ?case
    by (cases "pos < length path \<and> path ! pos = sep")
       (simp_all add: skip_separators.simps [of path sep pos])
qed

lemma token_end_progress:
  assumes "pos < length path" "path ! pos \<noteq> sep"
  shows "pos < token_end path sep pos"
  using assms token_end_ge [of "Suc pos" path sep] by (subst token_end.simps) simp

function normalize_loop :: "string \<Rightarrow> char \<Rightarrow> bool \<Rightarrow> nat \<Rightarrow> string list \<Rightarrow> string list" where
  "normalize_loop path sep is_absolute pos segments =
     (if pos < length path then
        (let pos = skip_separators path sep pos in
         if pos \<ge> length path then segments
         else
           (let end_pos = token_end path sep pos;
                token = take (end_pos - pos) (drop pos path)
            in normalize_loop path sep is_absolute end_pos
                 (push_token is_absolute segments token)))
      else segments)"
  by auto
termination
proof (relation "measure (\<lambda>(path, sep, is_absolute, pos, segments). length path - pos)", goal_cases)
  case (2 path sep is_absolute pos segments p e t)
  then have "pos \<le> p" "p < e"
    using skip_separators_ge token_end_progress skip_separators_stop
    by (simp_all add: not_le)
  with 2 show ?case by simp
qed simp

declare normalize_loop.simps [simp del]

definition join_segments :: "char \<Rightarrow> string \<Rightarrow> string list \<Rightarrow> string" where
  "join_segments sep normalized segments =
     foldl (\<lambda>acc i. (if i > 0 then acc @ [sep] else acc) @ segments ! i)
       normalized [0..<length segments]"

definition path_normalize :: "string \<Rightarrow> char \<Rightarrow> string" where
  "path_normalize path sep =
     (if path = [] then path
      else
        (let is_absolute = (hd path = sep);
             segments = normalize_loop path sep is_absolute 0 []
         in join_segments sep (if is_absolute then [sep] else []) segments))"

definition path_normalize_copy :: "string \<Rightarrow> char \<Rightarrow> string" where
  "path_normalize_copy path sep = (let res = path in path_normalize res sep)"

section \<open>The loops compute a fold over the segments of the path\<close>

lemma fields_skip: "nonempty_fields sep (drop (skip_separators path sep pos) path) = nonempty_fields sep (drop pos path)"
proof (induction path sep pos rule: skip_separators.induct)
  case (1 path sep pos)
  then show ?case
    by (cases "pos < length path \<and> path ! pos = sep")
       (auto simp: skip_separators.simps [of path sep pos] Cons_nth_drop_Suc [symmetric])
qed

lemma take_token_end:
  "take (token_end path sep pos - pos) (drop pos path) = takeWhile (\<lambda>c. c \<noteq> sep) (drop pos path)"
proof (induction path sep pos rule: token_end.induct)
  case (1 path sep pos)
  show ?case
  proof (cases "pos < length path \<and> path ! pos \<noteq> sep")
    case True
    moreover have "Suc pos \<le> token_end path sep (Suc pos)" by (rule token_end_ge)
    then have "token_end path sep (Suc pos) - pos = Suc (token_end path sep (Suc pos) - Suc pos)"
      by simp
    ultimately show ?thesis
      using 1 by (simp add: token_end.simps [of path sep pos] Cons_nth_drop_Suc [symmetric])
  next
    case False
    then show ?thesis
      by (cases "pos < length path")
         (simp_all add: token_end.simps [of path sep pos] Cons_nth_drop_Suc [symmetric])
  qed
qed

lemma drop_token_end:
  "drop (token_end path sep pos) path = dropWhile (\<lambda>c. c \<noteq> sep) (drop pos path)"
proof (induction path sep pos rule: token_end.induct)
  case (1 path sep pos)
  then show ?case
    by (cases "pos < length path")
       (simp_all add: token_end.simps [of path sep pos] Cons_nth_drop_Suc [symmetric])
qed

lemma fields_takeWhile:
  assumes "xs \<noteq> []" "hd xs \<noteq> sep"
  shows "nonempty_fields sep xs = takeWhile (\<lambda>c. c \<noteq> sep) xs # nonempty_fields sep (dropWhile (\<lambda>c. c \<noteq> sep) xs)"
proof -
  let ?t = "takeWhile (\<lambda>c. c \<noteq> sep) xs" and ?r = "dropWhile (\<lambda>c. c \<noteq> sep) xs"
  have t: "?t \<noteq> []" "sep \<notin> set ?t"
    using assms by (cases xs; auto dest: set_takeWhileD)+
  have xs: "?t @ ?r = xs" by simp
  show ?thesis
  proof (cases ?r)
    case Nil
    then have "xs = ?t" using xs by (metis append_Nil2)
    with Nil show ?thesis using fields_single [OF t] by (metis fields_Nil)
  next
    case (Cons c r)
    then have "c = sep" using hd_dropWhile [of "\<lambda>c. c \<noteq> sep" xs] by simp
    with Cons xs have "xs = ?t @ sep # r" by simp
    then show ?thesis using fields_append_sep [OF t, of r] Cons \<open>c = sep\<close> by simp
  qed
qed

lemma normalize_loop_fold:
  "normalize_loop path sep is_absolute pos segments =
     foldl (push_token is_absolute) segments (nonempty_fields sep (drop pos path))"
proof (induction path sep is_absolute pos segments rule: normalize_loop.induct)
  case (1 path sep is_absolute pos segments)
  define p where "p = skip_separators path sep pos"
  have flds: "nonempty_fields sep (drop pos path) = nonempty_fields sep (drop p path)"
    by (simp add: p_def fields_skip)
  show ?case
  proof (cases "pos < length path \<and> p < length path")
    case True
    let ?rest = "drop p path"
    have "?rest \<noteq> []" "hd ?rest \<noteq> sep"
      using True skip_separators_stop [of path sep pos] by (simp_all add: p_def hd_drop_conv_nth)
    then have "nonempty_fields sep ?rest = takeWhile (\<lambda>c. c \<noteq> sep) ?rest
        # nonempty_fields sep (dropWhile (\<lambda>c. c \<noteq> sep) ?rest)"
      by (rule fields_takeWhile)
    moreover note 1 [OF _ p_def _ refl refl]
    ultimately show ?thesis using True
      by (simp add: normalize_loop.simps [of path sep is_absolute pos] Let_def flds
          p_def [symmetric] take_token_end drop_token_end)
  next
    case False
    then have "drop p path = []" using skip_separators_ge [of pos path sep] p_def by fastforce
    with False show ?thesis
      by (auto simp: normalize_loop.simps [of path sep is_absolute pos] Let_def flds
          p_def [symmetric])
  qed
qed

lemma join_segments_join_with: "join_segments sep start segments = start @ join_with [sep] segments"
proof (induction segments rule: rev_induct)
  case (snoc t ts)
  have "join_segments sep start (ts @ [t])
      = (if ts = [] then join_segments sep start ts else join_segments sep start ts @ [sep]) @ t"
    by (auto simp: join_segments_def nth_append intro!: foldl_cong)
  with snoc show ?case by (cases "ts = []") (simp_all add: join_with_snoc)
qed (simp add: join_segments_def)

section \<open>What a path means\<close>

text \<open>
  A path is absolute or not, climbs a number of parent directories, then descends through names.
  \<open>walk\<close> follows one segment; the parent of the root is the root.
\<close>

type_synonym place = "nat \<times> string list"

fun walk :: "bool \<Rightarrow> place \<Rightarrow> string \<Rightarrow> place" where
  "walk absolute (ups, names) token =
     (if token = dot then (ups, names)
      else if token = dotdot then
        (if names \<noteq> [] then (ups, butlast names) else if absolute then (ups, names)
         else (Suc ups, names))
      else (ups, names @ [token]))"

definition absolute_path :: "string \<Rightarrow> char \<Rightarrow> bool" where
  "absolute_path path sep = (path \<noteq> [] \<and> hd path = sep)"

definition denotes :: "string \<Rightarrow> char \<Rightarrow> bool \<times> place" where
  "denotes path sep =
     (let a = absolute_path path sep in (a, foldl (walk a) (0, []) (nonempty_fields sep path)))"

fun place_segments :: "place \<Rightarrow> string list" where
  "place_segments (ups, names) = replicate ups dotdot @ names"

fun render :: "char \<Rightarrow> bool \<times> place \<Rightarrow> string" where
  "render sep (absolute, pl) = (if absolute then [sep] else []) @ join_with [sep] (place_segments pl)"

text \<open>The places a walk visits: only real names, and no climbing above the root.\<close>

definition place_ok :: "bool \<Rightarrow> place \<Rightarrow> bool" where
  "place_ok absolute pl \<longleftrightarrow>
     (absolute \<longrightarrow> fst pl = 0) \<and> (\<forall>n \<in> set (snd pl). n \<noteq> dot \<and> n \<noteq> dotdot)"

lemma walk_ok: "place_ok a pl \<Longrightarrow> place_ok a (walk a pl t)"
  by (cases pl) (auto simp: place_ok_def dest: in_set_butlastD)

lemma walks_ok: "place_ok a pl \<Longrightarrow> place_ok a (foldl (walk a) pl ts)"
  by (induction ts arbitrary: pl) (simp_all add: walk_ok del: walk.simps)

lemma push_token_walk:
  assumes "place_ok a pl"
  shows "push_token a (place_segments pl) t = place_segments (walk a pl t)"
proof (cases pl)
  case (Pair ups names)
  show ?thesis
  proof (cases "names = []")
    case True
    with assms Pair show ?thesis
      by (cases ups) (auto simp: push_token_def place_ok_def replicate_append_same)
  next
    case False
    then have "last names \<in> set names" by simp
    with False assms Pair show ?thesis
      by (auto simp: push_token_def place_ok_def butlast_append)
  qed
qed

lemma push_tokens_walk:
  "place_ok a pl \<Longrightarrow>
   foldl (push_token a) (place_segments pl) ts = place_segments (foldl (walk a) pl ts)"
  by (induction ts arbitrary: pl) (auto simp: push_token_walk walk_ok)

lemma walk_start [simp]: "place_ok a (0, [])" "place_segments (0, []) = []"
  by (simp_all add: place_ok_def)

lemma path_normalize_render: "path_normalize path sep = render sep (denotes path sep)"
proof (cases "path = []")
  case False
  have "foldl (push_token a) [] ts = place_segments (foldl (walk a) (0, []) ts)" for a ts
    using push_tokens_walk [of a "(0, [])" ts] by simp
  with False show ?thesis
    by (simp add: path_normalize_def denotes_def absolute_path_def Let_def normalize_loop_fold
        join_segments_join_with)
qed (simp add: path_normalize_def denotes_def absolute_path_def)

section \<open>The result denotes what the argument denotes\<close>

lemma set_place_segments_walk:
  "set (place_segments (walk a pl t)) \<subseteq> insert t (set (place_segments pl))"
  by (cases pl) (auto dest: in_set_butlastD)

lemma set_place_segments_walks:
  "set (place_segments (foldl (walk a) pl ts)) \<subseteq> set (place_segments pl) \<union> set ts"
proof (induction ts arbitrary: pl)
  case (Cons t ts)
  show ?case using Cons.IH [of "walk a pl t"] set_place_segments_walk [of a pl t] by auto
qed simp

lemma walk_ups: "\<not> a \<or> n = 0 \<Longrightarrow> foldl (walk a) (u, []) (replicate n dotdot) = (u + n, [])"
  by (induction n arbitrary: u) auto

lemma walk_names:
  "\<forall>n \<in> set ns. n \<noteq> dot \<and> n \<noteq> dotdot \<Longrightarrow> foldl (walk a) (u, ms) ns = (u, ms @ ns)"
  by (induction ns arbitrary: ms) auto

lemma walk_place_segments:
  assumes "place_ok a pl"
  shows "foldl (walk a) (0, []) (place_segments pl) = pl"
proof (cases pl)
  case (Pair u ns)
  with assms have "foldl (walk a) (0, []) (replicate u dotdot) = (u, [])"
    using walk_ups [of a u 0] by (auto simp: place_ok_def)
  with Pair assms show ?thesis by (simp add: walk_names place_ok_def)
qed

lemma denotes_render:
  assumes "place_ok a pl" and "\<forall>t \<in> set (place_segments pl). t \<noteq> [] \<and> sep \<notin> set t"
  shows "denotes (render sep (a, pl)) sep = (a, pl)"
proof -
  let ?ts = "place_segments pl"
  have "nonempty_fields sep (render sep (a, pl)) = ?ts"
    using fields_join_with [OF assms(2)] by simp
  moreover have "absolute_path (render sep (a, pl)) sep = a"
  proof (cases a)
    case False
    have "\<not> absolute_path (join_with [sep] ?ts) sep"
    proof (cases ?ts)
      case (Cons t ts)
      with assms(2) obtain c cs where "t = c # cs" "c \<noteq> sep" by (cases t) auto
      with Cons show ?thesis by (cases ts) (auto simp: absolute_path_def)
    qed (simp add: absolute_path_def)
    with False show ?thesis by simp
  qed (simp add: absolute_path_def)
  ultimately show ?thesis
    using walk_place_segments [OF assms(1)] by (simp add: denotes_def Let_def)
qed

lemma denotes_path_normalize: "denotes (path_normalize path sep) sep = denotes path sep"
proof -
  let ?a = "absolute_path path sep"
  let ?pl = "foldl (walk ?a) (0, []) (nonempty_fields sep path)"
  have "set (place_segments ?pl) \<subseteq> set (nonempty_fields sep path)"
    using set_place_segments_walks [of ?a "(0, [])" "nonempty_fields sep path"] by simp
  then have "\<forall>t \<in> set (place_segments ?pl). t \<noteq> [] \<and> sep \<notin> set t"
    using fields_props by fast
  with denotes_render [of ?a ?pl sep] walks_ok [OF walk_start(1)]
  have "denotes (render sep (?a, ?pl)) sep = (?a, ?pl)" by blast
  moreover have "denotes path sep = (?a, ?pl)" by (simp add: denotes_def Let_def)
  ultimately show ?thesis by (simp only: path_normalize_render)
qed

section \<open>Normalisers\<close>

text \<open>
  What a client of a normaliser relies on: the meaning is kept, and depends on nothing else.
\<close>

locale normalizer =
  fixes norm :: "'p \<Rightarrow> 'p"
    and meaning :: "'p \<Rightarrow> 'm"
  assumes meaning_norm: "meaning (norm p) = meaning p"
    and norm_meaning: "meaning p = meaning q \<Longrightarrow> norm p = norm q"
begin

lemma norm_idem: "norm (norm p) = norm p"
  by (rule norm_meaning) (rule meaning_norm)

lemma norm_eq_iff: "norm p = norm q \<longleftrightarrow> meaning p = meaning q"
  using meaning_norm norm_meaning by metis

end

interpretation pn: normalizer "\<lambda>p. path_normalize p sep" "\<lambda>p. denotes p sep" for sep
  by unfold_locales (rule denotes_path_normalize, simp add: path_normalize_render)

text \<open>The cases of \<open>src/tests/path_normalize_test.cpp\<close>, evaluated on the model.\<close>

lemma path_normalize_tests:
  "path_normalize ''foo//./bar///baz'' (CHR ''/'') = ''foo/bar/baz''"
  "path_normalize ''alpha/beta/../gamma'' (CHR ''/'') = ''alpha/gamma''"
  "path_normalize ''../../alpha/../beta'' (CHR ''/'') = ''../../beta''"
  "path_normalize ''/../../alpha//beta/..'' (CHR ''/'') = ''/alpha''"
  "path_normalize ''////'' (CHR ''/'') = ''/''"
  "path_normalize ''././.'' (CHR ''/'') = []"
  by code_simp+

section \<open>Properties\<close>

text \<open>
  C33: \<open>path_normalize\<close> computes a canonical form: two paths are normalised to the same string
  exactly when they denote the same place (same root, same number of parent directories, same
  names), and normalising twice changes nothing.
\<close>

theorem path_normalize_canonical:
  "(path_normalize p sep = path_normalize q sep \<longleftrightarrow> denotes p sep = denotes q sep) \<and>
   path_normalize (path_normalize p sep) sep = path_normalize p sep"
  using pn.norm_eq_iff pn.norm_idem by blast

text \<open>
  The shape of a normalised path: its segments contain no \<open>.\<close>, every \<open>..\<close> stands before every
  name, and an absolute path stays absolute and has no \<open>..\<close> at all, so that it never leaves the
  root; the names are segments of the original path, so none is empty.
\<close>

lemma path_normalize_normal_form:
  "\<exists>ups names.
     path_normalize p sep = (if absolute_path p sep then [sep] else [])
        @ join_with [sep] (replicate ups ''..'' @ names) \<and>
     (if absolute_path p sep then ups = 0 else True) \<and>
     set names \<subseteq> set (nonempty_fields sep p) - {''.'', ''..''}"
proof -
  let ?a = "absolute_path p sep"
  obtain u ns where pl: "foldl (walk ?a) (0, []) (nonempty_fields sep p) = (u, ns)" by fastforce
  then have ok: "place_ok ?a (u, ns)" using walks_ok [OF walk_start(1)] by metis
  have "set ns \<subseteq> set (nonempty_fields sep p)"
    using set_place_segments_walks [of ?a "(0, [])" "nonempty_fields sep p"] pl by simp
  with ok pl show ?thesis
    by (intro exI [of _ u] exI [of _ ns])
       (auto simp: path_normalize_render denotes_def Let_def place_ok_def)
qed

end
