(* ===== verification/LRU.thy ===== *)
theory LRU
  imports Prelude
begin

text \<open>
  \<open>src/foundation/lru.h\<close> and \<open>src/foundation/lru.inl\<close>: the cache with a doubly linked list in
  order of use and a hash map from keys to iterators into the list. A \<open>std::list\<close> is a sequence
  of nodes, each with its address, and an iterator is the address of a node; using an iterator
  whose node is not in the list, and \<open>back()\<close> of an empty list, are undefined. The specification
  is a plain list of key-value pairs, most recently used first.
\<close>

section \<open>The linked list and its iterators\<close>

type_synonym node = nat
type_synonym 'a std_list = "(node \<times> 'a) list"

definition list_deref :: "node \<Rightarrow> 'a std_list \<Rightarrow> Undefined + 'a" where
  "list_deref it l = (case map_of l it of None \<Rightarrow> Inl Dangling_Iterator | Some x \<Rightarrow> Inr x)"

definition list_erase :: "node \<Rightarrow> 'a std_list \<Rightarrow> Undefined + 'a std_list" where
  "list_erase it l =
     (if it \<in> fst ` set l then Inr (filter (\<lambda>n. fst n \<noteq> it) l) else Inl Dangling_Iterator)"

text \<open>\<open>list_.splice(list_.begin(), list_, it)\<close>: the node moves to the front, keeping its address.\<close>

definition list_splice_front :: "node \<Rightarrow> 'a std_list \<Rightarrow> Undefined + 'a std_list" where
  "list_splice_front it l =
     and_then (list_deref it l) (\<lambda>x. and_then (list_erase it l) (\<lambda>l'. Inr ((it, x) # l')))"

definition list_assign :: "node \<Rightarrow> ('a \<Rightarrow> 'a) \<Rightarrow> 'a std_list \<Rightarrow> Undefined + 'a std_list" where
  "list_assign it f l =
     (if it \<in> fst ` set l then Inr (map (\<lambda>(a, x). (a, if a = it then f x else x)) l)
      else Inl Dangling_Iterator)"

definition list_back :: "'a std_list \<Rightarrow> Undefined + 'a" where
  "list_back l = (if l = [] then Inl Empty_Container else Inr (snd (last l)))"

section \<open>The cache\<close>

text \<open>\<open>next_node\<close> is the allocator: the address the next node of the list gets.\<close>

record ('k, 'v) LRU =
  capacity :: size_t
  list :: "('k \<times> 'v) std_list"
  cache :: "'k \<rightharpoonup> node"
  next_node :: node

definition LRU_new :: "size_t \<Rightarrow> ('k, 'v) LRU" where
  "LRU_new cap = \<lparr> capacity = cap, list = [], cache = Map.empty, next_node = 0 \<rparr>"

definition LRU_get :: "'k \<Rightarrow> ('k, 'v) LRU \<Rightarrow> Undefined + ('k, 'v) LRU \<times> 'v option" where
  "LRU_get k s =
     (case cache s k of
        None \<Rightarrow> Inr (s, None)
      | Some it \<Rightarrow>
          and_then (list_splice_front it (list s)) (\<lambda>l.
          and_then (list_deref it l) (\<lambda>e. Inr (s\<lparr> list := l \<rparr>, Some (snd e)))))"

definition LRU_put :: "'k \<Rightarrow> 'v \<Rightarrow> ('k, 'v) LRU \<Rightarrow> Undefined + ('k, 'v) LRU" where
  "LRU_put k v s =
     (case cache s k of
        Some it \<Rightarrow>
          and_then (list_assign it (\<lambda>e. (fst e, v)) (list s)) (\<lambda>l.
          and_then (list_splice_front it l) (\<lambda>l. Inr (s\<lparr> list := l \<rparr>)))
      | None \<Rightarrow>
          and_then
            (if of_nat (length (list s)) = capacity s then
               and_then (list_back (list s)) (\<lambda>victim.
                 Inr (s\<lparr> cache := (cache s)(fst victim := None), list := butlast (list s) \<rparr>))
             else Inr s)
            (\<lambda>s. Inr (s\<lparr> list := (next_node s, (k, v)) # list s,
                        cache := (cache s)(k \<mapsto> next_node s),
                        next_node := Suc (next_node s) \<rparr>)))"

definition LRU_erase :: "'k \<Rightarrow> ('k, 'v) LRU \<Rightarrow> Undefined + ('k, 'v) LRU" where
  "LRU_erase k s =
     (case cache s k of
        None \<Rightarrow> Inr s
      | Some it \<Rightarrow>
          and_then (list_erase it (list s))
            (\<lambda>l. Inr (s\<lparr> list := l, cache := (cache s)(k := None) \<rparr>)))"

section \<open>The specification\<close>

text \<open>The pairs in the cache, most recently used first.\<close>

type_synonym ('k, 'v) recency = "('k \<times> 'v) list"

definition without :: "'k \<Rightarrow> ('k, 'v) recency \<Rightarrow> ('k, 'v) recency" where
  "without k xs = filter (\<lambda>p. fst p \<noteq> k) xs"

definition spec_get :: "'k \<Rightarrow> ('k, 'v) recency \<Rightarrow> ('k, 'v) recency \<times> 'v option" where
  "spec_get k xs =
     (case map_of xs k of None \<Rightarrow> (xs, None) | Some v \<Rightarrow> ((k, v) # without k xs, Some v))"

definition spec_put :: "nat \<Rightarrow> 'k \<Rightarrow> 'v \<Rightarrow> ('k, 'v) recency \<Rightarrow> ('k, 'v) recency" where
  "spec_put cap k v xs =
     (k, v) # (if map_of xs k = None \<and> length xs = cap then butlast xs else without k xs)"

text \<open>The calls of the class, as data.\<close>

datatype ('k, 'v) LRU_call = Get 'k | Put 'k 'v | Erase 'k

fun call_key :: "('k, 'v) LRU_call \<Rightarrow> 'k" where
  "call_key (Get k) = k"
| "call_key (Put k v) = k"
| "call_key (Erase k) = k"

fun LRU_run_call :: "('k, 'v) LRU_call \<Rightarrow> ('k, 'v) LRU \<Rightarrow> Undefined + ('k, 'v) LRU \<times> 'v option" where
  "LRU_run_call (Get k) s = LRU_get k s"
| "LRU_run_call (Put k v) s = and_then (LRU_put k v s) (\<lambda>s. Inr (s, None))"
| "LRU_run_call (Erase k) s = and_then (LRU_erase k s) (\<lambda>s. Inr (s, None))"

fun spec_call :: "nat \<Rightarrow> ('k, 'v) LRU_call \<Rightarrow> ('k, 'v) recency \<Rightarrow> ('k, 'v) recency \<times> 'v option" where
  "spec_call cap (Get k) xs = spec_get k xs"
| "spec_call cap (Put k v) xs = (spec_put cap k v xs, None)"
| "spec_call cap (Erase k) xs = (without k xs, None)"

section \<open>Invariant\<close>

definition LRU_inv :: "('k, 'v) LRU \<Rightarrow> bool" where
  "LRU_inv s \<longleftrightarrow>
     0 < unat (capacity s) \<and> length (list s) \<le> unat (capacity s) \<and>
     distinct (map fst (list s)) \<and> distinct (map (fst \<circ> snd) (list s)) \<and>
     (\<forall>n \<in> set (list s). fst n < next_node s) \<and>
     (\<forall>k it. cache s k = Some it \<longleftrightarrow> (\<exists>v. (it, (k, v)) \<in> set (list s)))"

definition LRU_abs :: "('k, 'v) LRU \<Rightarrow> ('k, 'v) recency" where
  "LRU_abs s = map snd (list s)"

lemma LRU_inv_new: "0 < unat cap \<Longrightarrow> LRU_inv (LRU_new cap)"
  by (simp add: LRU_inv_def LRU_new_def)

lemma LRU_abs_new [simp]: "LRU_abs (LRU_new cap) = []"
  by (simp add: LRU_abs_def LRU_new_def)

lemma cached_SomeE:
  assumes "LRU_inv s" "cache s k = Some it"
  obtains v where "(it, (k, v)) \<in> set (list s)"
  using assms by (auto simp: LRU_inv_def)

lemma inv_cache: "LRU_inv s \<Longrightarrow> (it, (k, v)) \<in> set (list s) \<Longrightarrow> cache s k = Some it"
  unfolding LRU_inv_def by blast

lemma inv_node_eq: "LRU_inv s \<Longrightarrow> (it, x) \<in> set (list s) \<Longrightarrow> (it, y) \<in> set (list s) \<Longrightarrow> x = y"
  unfolding LRU_inv_def by (blast dest: eq_key_imp_eq_value)

lemma cached_None:
  assumes "LRU_inv s" "cache s k = None"
  shows "map_of (LRU_abs s) k = None"
proof (rule ccontr)
  assume "map_of (LRU_abs s) k \<noteq> None"
  then obtain v where "(k, v) \<in> set (map snd (list s))"
    by (auto simp: LRU_abs_def dest: map_of_SomeD)
  then obtain it where "(it, (k, v)) \<in> set (list s)" by auto
  with assms show False using inv_cache by fastforce
qed

text \<open>The node of a cached key is a node of the list, and the only one with its key.\<close>

lemma cached_node:
  assumes "LRU_inv s" "(it, (k, v)) \<in> set (list s)"
  shows "cache s k = Some it" "map_of (list s) it = Some (k, v)" "map_of (LRU_abs s) k = Some v"
    and "map snd (filter (\<lambda>n. fst n \<noteq> it) (list s)) = without k (LRU_abs s)"
proof -
  show "cache s k = Some it" "map_of (list s) it = Some (k, v)"
    using assms inv_cache by (auto simp: LRU_inv_def)
  have dk: "distinct (map fst (LRU_abs s))"
    using assms(1) by (simp add: LRU_inv_def LRU_abs_def)
  moreover have "(k, v) \<in> set (LRU_abs s)" using assms(2) by (force simp: LRU_abs_def)
  ultimately show "map_of (LRU_abs s) k = Some v" by simp
  have "fst n \<noteq> it \<longleftrightarrow> fst (snd n) \<noteq> k" if "n \<in> set (list s)" for n
  proof -
    have n: "(fst n, (fst (snd n), snd (snd n))) \<in> set (list s)" using that by simp
    show ?thesis
      using inv_cache [OF assms(1) n] inv_cache [OF assms] inv_node_eq [OF assms(1) _ assms(2)] n
      by fastforce
  qed
  then have "filter (\<lambda>n. fst n \<noteq> it) (list s) = filter (\<lambda>n. fst (snd n) \<noteq> k) (list s)"
    by (intro filter_cong) auto
  then show "map snd (filter (\<lambda>n. fst n \<noteq> it) (list s)) = without k (LRU_abs s)"
    by (simp add: without_def LRU_abs_def filter_map comp_def)
qed

section \<open>Every call simulates the specification\<close>

text \<open>What a call has done: the invariant holds again, and the list of pairs is the expected one.\<close>

definition LRU_simulates ::
  "('k, 'v) LRU \<Rightarrow> ('k, 'v) LRU_call \<Rightarrow> ('k, 'v) LRU \<Rightarrow> 'v option \<Rightarrow> bool" where
  "LRU_simulates s e t r \<longleftrightarrow>
     LRU_inv t \<and> capacity t = capacity s \<and>
     spec_call (unat (capacity s)) e (LRU_abs s) = (LRU_abs t, r)"

text \<open>Moving the node of a cached key to the front, possibly with a new value.\<close>

lemma touch_inv:
  assumes inv: "LRU_inv s" and mem: "(it, (k, v)) \<in> set (list s)"
  shows "LRU_inv (s\<lparr> list := (it, (k, w)) # filter (\<lambda>n. fst n \<noteq> it) (list s) \<rparr>)"
proof -
  let ?l = "filter (\<lambda>n. fst n \<noteq> it) (list s)"
  have "length ?l < length (list s)"
    using mem by (intro length_filter_less) auto
  moreover have keys: "fst (snd n) \<noteq> k" if "n \<in> set ?l" for n
    using that inv_cache [OF inv mem] inv_cache [OF inv, of "fst n" "fst (snd n)" "snd (snd n)"]
    by auto
  moreover have "distinct (map (fst \<circ> snd) ?l)" "distinct (map fst ?l)"
    using inv by (auto simp: LRU_inv_def distinct_map_filter)
  moreover have "cache s j = Some i \<longleftrightarrow>
      (\<exists>u. (i, (j, u)) \<in> set ((it, (k, w)) # ?l))" for j i
  proof -
    have "cache s j = Some i \<longleftrightarrow> (\<exists>u. (i, (j, u)) \<in> set (list s))"
      using inv by (simp add: LRU_inv_def)
    moreover have "u = (k, v)" if "(it, u) \<in> set (list s)" for u
      using inv_node_eq [OF inv that mem] .
    ultimately show ?thesis using mem by auto
  qed
  ultimately show ?thesis
    using inv mem by (auto simp: LRU_inv_def)
qed

lemma list_splice_front_eq:
  "map_of l it = Some x \<Longrightarrow> list_splice_front it l = Inr ((it, x) # filter (\<lambda>n. fst n \<noteq> it) l)"
  by (auto simp: list_splice_front_def list_deref_def list_erase_def dest: map_of_SomeD
      intro: rev_image_eqI)

lemma LRU_get_simulates:
  assumes inv: "LRU_inv s"
  shows "\<exists>t r. LRU_get k s = Inr (t, r) \<and> LRU_simulates s (Get k) t r"
proof (cases "cache s k")
  case None
  with cached_None [OF inv None] inv show ?thesis
    by (simp add: LRU_get_def LRU_simulates_def spec_get_def)
next
  case (Some it)
  with inv obtain v where mem: "(it, (k, v)) \<in> set (list s)" by (rule cached_SomeE)
  with Some touch_inv [OF inv mem] cached_node [OF inv mem] show ?thesis
    by (simp add: LRU_get_def list_splice_front_eq list_deref_def LRU_simulates_def spec_get_def
        LRU_abs_def)
qed

lemma LRU_erase_simulates:
  assumes inv: "LRU_inv s"
  shows "\<exists>t. LRU_erase k s = Inr t \<and> LRU_simulates s (Erase k) t None"
proof (cases "cache s k")
  case None
  with cached_None [OF inv None] inv show ?thesis
    by (force simp: LRU_erase_def LRU_simulates_def without_def map_of_eq_None_iff
        intro: filter_True)
next
  case (Some it)
  with inv obtain v where mem: "(it, (k, v)) \<in> set (list s)" by (rule cached_SomeE)
  let ?l = "filter (\<lambda>n. fst n \<noteq> it) (list s)"
  have "length ?l \<le> unat (capacity s)"
    using inv by (intro order_trans [OF length_filter_le]) (simp add: LRU_inv_def)
  moreover have "distinct (map (fst \<circ> snd) ?l)" "distinct (map fst ?l)"
    using inv by (auto simp: LRU_inv_def distinct_map_filter)
  moreover have "((cache s)(k := None)) j = Some i \<longleftrightarrow> (\<exists>u. (i, (j, u)) \<in> set ?l)" for j i
  proof -
    have "cache s j = Some i \<longleftrightarrow> (\<exists>u. (i, (j, u)) \<in> set (list s))"
      using inv by (simp add: LRU_inv_def)
    moreover have "u = (k, v)" if "(it, u) \<in> set (list s)" for u
      using inv_node_eq [OF inv that mem] .
    ultimately show ?thesis using Some by auto
  qed
  ultimately have "LRU_inv (s\<lparr> list := ?l, cache := (cache s)(k := None) \<rparr>)"
    using inv by (auto simp: LRU_inv_def)
  with Some mem cached_node [OF inv mem] show ?thesis
    by (force simp: LRU_erase_def list_erase_def LRU_simulates_def LRU_abs_def)
qed

lemma list_assign_eq:
  assumes "distinct (map fst l)" "map_of l it = Some x"
  shows "\<exists>l'. list_assign it f l = Inr l' \<and> map_of l' it = Some (f x) \<and>
           filter (\<lambda>n. fst n \<noteq> it) l' = filter (\<lambda>n. fst n \<noteq> it) l"
proof -
  let ?g = "\<lambda>(a, x). (a, if a = it then f x else x)"
  have "map_of (map ?g l) it = Some (f x)"
    using assms by (induction l) (auto split: if_splits)
  moreover have "filter (\<lambda>n. fst n \<noteq> it) (map ?g l) = filter (\<lambda>n. fst n \<noteq> it) l"
    by (induction l) auto
  moreover have "it \<in> fst ` set l" using assms(2) by (force dest: map_of_SomeD)
  ultimately show ?thesis by (simp add: list_assign_def)
qed

lemma LRU_insert_inv:
  assumes inv: "LRU_inv s" and new: "cache s k = None"
    and room: "length (list s) < unat (capacity s)"
  shows "LRU_inv (s\<lparr> list := (next_node s, (k, v)) # list s,
      cache := (cache s)(k \<mapsto> next_node s), next_node := Suc (next_node s) \<rparr>)"
proof -
  have "k \<notin> (fst \<circ> snd) ` set (list s)"
    using inv_cache [OF inv] new by force
  moreover have "next_node s \<notin> fst ` set (list s)"
    using inv by (auto simp: LRU_inv_def)
  moreover have "((cache s)(k \<mapsto> next_node s)) j = Some i \<longleftrightarrow>
      (\<exists>u. (i, (j, u)) \<in> set ((next_node s, (k, v)) # list s))" for j i
  proof -
    have "cache s j = Some i \<longleftrightarrow> (\<exists>u. (i, (j, u)) \<in> set (list s))"
      using inv by (simp add: LRU_inv_def)
    with calculation(1) show ?thesis by force
  qed
  ultimately show ?thesis
    using inv room by (auto simp: LRU_inv_def comp_def less_Suc_eq)
qed

lemma LRU_evict_inv:
  assumes inv: "LRU_inv s" and l: "list s = l @ [(it, (k, v))]"
  shows "LRU_inv (s\<lparr> cache := (cache s)(k := None), list := l \<rparr>)"
proof -
  have "((cache s)(k := None)) j = Some i \<longleftrightarrow> (\<exists>u. (i, (j, u)) \<in> set l)" for j i
  proof -
    have "cache s j = Some i \<longleftrightarrow> (\<exists>u. (i, (j, u)) \<in> set (list s))"
      using inv by (simp add: LRU_inv_def)
    moreover have "k \<notin> (fst \<circ> snd) ` set l" using inv l by (simp add: LRU_inv_def)
    ultimately show ?thesis using l by force
  qed
  with inv l show ?thesis by (auto simp: LRU_inv_def)
qed

lemma LRU_full_iff:
  assumes "LRU_inv s"
  shows "of_nat (length (list s)) = capacity s \<longleftrightarrow> length (list s) = unat (capacity s)"
proof -
  have "unat (capacity s) < 2 ^ 64" using unsigned_less [of "capacity s", where 'a = nat] by simp
  then have "length (list s) < 2 ^ 64" using assms by (simp add: LRU_inv_def)
  then have "unat (of_nat (length (list s)) :: size_t) = length (list s)"
    by (simp add: unat_of_nat take_bit_nat_eq_self)
  then show ?thesis by (metis unsigned_word_eqI)
qed

lemma LRU_put_hit_simulates:
  assumes inv: "LRU_inv s" and hit: "cache s k = Some it"
  shows "\<exists>t. LRU_put k v s = Inr t \<and> LRU_simulates s (Put k v) t None"
proof -
  from inv hit obtain u where mem: "(it, (k, u)) \<in> set (list s)" by (rule cached_SomeE)
  note node = cached_node [OF inv mem]
  have "distinct (map fst (list s))" using inv by (simp add: LRU_inv_def)
  from list_assign_eq [OF this node(2), of "\<lambda>e. (fst e, v)"] obtain l where
    "list_assign it (\<lambda>e. (fst e, v)) (list s) = Inr l" "map_of l it = Some (k, v)"
    "filter (\<lambda>n. fst n \<noteq> it) l = filter (\<lambda>n. fst n \<noteq> it) (list s)"
    by auto
  with hit node touch_inv [OF inv mem, of v] show ?thesis
    by (simp add: LRU_put_def list_splice_front_eq LRU_simulates_def spec_put_def LRU_abs_def)
qed

lemma LRU_put_miss_simulates:
  assumes inv: "LRU_inv s" and miss: "cache s k = None"
  shows "\<exists>t. LRU_put k v s = Inr t \<and> LRU_simulates s (Put k v) t None"
proof (cases "length (list s) = unat (capacity s)")
  case True
  with inv obtain l it j u where l: "list s = l @ [(it, (j, u))]"
    by (cases "list s" rule: rev_cases) (auto simp: LRU_inv_def)
  let ?s = "s\<lparr> cache := (cache s)(j := None), list := l \<rparr>"
  have "LRU_inv ?s" using inv l by (rule LRU_evict_inv)
  moreover have "cache ?s k = None" "length (list ?s) < unat (capacity ?s)"
    using miss l True by simp_all
  ultimately show ?thesis
    using LRU_insert_inv [of ?s k v] True miss l LRU_full_iff [OF inv] cached_None [OF inv miss]
    by (simp add: LRU_put_def list_back_def LRU_simulates_def spec_put_def LRU_abs_def)
next
  case False
  with inv have "length (list s) < unat (capacity s)" by (simp add: LRU_inv_def)
  moreover have "without k (LRU_abs s) = LRU_abs s"
    using cached_None [OF inv miss]
    by (force simp: without_def map_of_eq_None_iff intro: filter_True)
  ultimately show ?thesis
    using LRU_insert_inv [OF inv miss] False miss LRU_full_iff [OF inv] cached_None [OF inv miss]
    by (simp add: LRU_put_def LRU_simulates_def spec_put_def LRU_abs_def)
qed

lemma LRU_call_simulates:
  assumes "LRU_inv s"
  shows "\<exists>t r. LRU_run_call e s = Inr (t, r) \<and> LRU_simulates s e t r"
proof (cases e)
  case (Get k)
  with LRU_get_simulates [OF assms] show ?thesis by simp
next
  case (Put k v)
  obtain t where "LRU_put k v s = Inr t" "LRU_simulates s (Put k v) t None"
    using LRU_put_hit_simulates [OF assms] LRU_put_miss_simulates [OF assms]
    by (cases "cache s k") blast+
  with Put show ?thesis by simp
next
  case (Erase k)
  with LRU_erase_simulates [OF assms, of k] show ?thesis by auto
qed

interpretation lru: call_refinement LRU_inv LRU_abs LRU_run_call "\<lambda>s. unat (capacity s)" spec_call
  using LRU_call_simulates by unfold_locales (fastforce simp: LRU_simulates_def)

section \<open>What the specification promises\<close>

text \<open>\<open>k\<close> holds \<open>v\<close>, and every key used since is in \<open>S\<close>.\<close>

definition holds_since :: "'k \<Rightarrow> 'v \<Rightarrow> 'k set \<Rightarrow> ('k, 'v) recency \<Rightarrow> bool" where
  "holds_since k v S xs \<longleftrightarrow>
     (\<exists>pre post. xs = pre @ (k, v) # post \<and> fst ` set pre \<subseteq> S \<and> distinct (map fst xs))"

lemma without_append [simp]: "without k (xs @ ys) = without k xs @ without k ys"
  by (simp add: without_def)

lemma without_Cons [simp]:
  "without k (p # xs) = (if fst p = k then without k xs else p # without k xs)"
  by (simp add: without_def)

lemma set_without: "set (without k xs) = {p \<in> set xs. fst p \<noteq> k}"
  by (auto simp: without_def)

lemma distinct_without: "distinct (map fst xs) \<Longrightarrow> distinct (map fst (without k xs))"
  by (simp add: without_def distinct_map_filter)

lemma holds_since_Cons:
  assumes "distinct (map fst (pre @ (k, v) # post))" "fst ` set pre \<subseteq> S" "j \<in> S" "j \<noteq> k"
  shows "holds_since k v S ((j, w) # without j (pre @ (k, v) # post))"
  unfolding holds_since_def
  using assms distinct_without [OF assms(1), of j]
  by (intro exI [of _ "(j, w) # without j pre"] exI [of _ "without j post"])
     (auto simp: set_without)

text \<open>A \<open>put\<close> of another key into a full cache evicts an entry behind the one that is held.\<close>

lemma holds_since_evict:
  assumes holds: "holds_since k v S xs" and S: "finite S" "card S < length xs" "k \<notin> S"
    and j: "j \<in> S" "j \<notin> fst ` set xs"
  shows "holds_since k v S ((j, w) # butlast xs)"
proof -
  from holds obtain pre post where xs: "xs = pre @ (k, v) # post" "fst ` set pre \<subseteq> S"
    and d: "distinct (map fst xs)" by (auto simp: holds_since_def)
  have "length pre = card (fst ` set pre)"
    using d xs(1) distinct_card [of "map fst pre"] by simp
  also have "\<dots> \<le> card (S - {j})"
    using S(1) xs j(2) by (intro card_mono) auto
  also have "\<dots> < card S" using S(1) j(1) by (intro card_Diff1_less)
  finally have "length pre + 1 < length xs" using S(2) by simp
  then have "post \<noteq> []" using xs(1) by auto
  then have "butlast xs = pre @ (k, v) # butlast post"
    using xs(1) by (simp add: butlast_append)
  moreover have "distinct (map fst ((j, w) # butlast xs))"
    using d j(2) by (auto simp: map_butlast distinct_butlast dest: in_set_butlastD)
  ultimately show ?thesis
    unfolding holds_since_def using xs(2) j(1)
    by (intro exI [of _ "(j, w) # pre"] exI [of _ "butlast post"]) auto
qed

lemma holds_since_call:
  assumes holds: "holds_since k v S xs" and S: "finite S" "card S < cap" "k \<notin> S"
    and key: "call_key e \<in> S"
  shows "holds_since k v S (fst (spec_call cap e xs))"
proof -
  from holds obtain pre post where xs: "xs = pre @ (k, v) # post" "fst ` set pre \<subseteq> S"
    and d: "distinct (map fst xs)" by (auto simp: holds_since_def)
  have ne: "call_key e \<noteq> k" using S(3) key by auto
  have touch: "holds_since k v S ((call_key e, w) # without (call_key e) xs)" for w
    unfolding xs(1) using d xs key ne by (intro holds_since_Cons) auto
  show ?thesis
  proof (cases e)
    case (Get j)
    with holds touch show ?thesis by (auto simp: spec_get_def split: option.splits)
  next
    case (Erase j)
    have "holds_since k v S (without j xs)"
      unfolding holds_since_def using ne d xs distinct_without [OF d, of j] Erase
      by (intro exI [of _ "without j pre"] exI [of _ "without j post"]) (auto simp: set_without)
    with Erase show ?thesis by simp
  next
    case (Put j w)
    show ?thesis
    proof (cases "map_of xs j = None \<and> length xs = cap")
      case True
      with Put S key have "holds_since k v S ((j, w) # butlast xs)"
        by (intro holds_since_evict [OF holds]) (auto simp: map_of_eq_None_iff)
      with True Put show ?thesis by (simp add: spec_put_def)
    next
      case False
      with touch Put show ?thesis by (auto simp: spec_put_def)
    qed
  qed
qed

lemma holds_since_calls:
  assumes "holds_since k v S xs" "finite S" "card S < cap" "k \<notin> S" "call_key ` set es \<subseteq> S"
  shows "holds_since k v S (fst (run_spec (spec_call cap) es xs))"
  using assms
proof (induction es arbitrary: xs)
  case (Cons e es)
  have "holds_since k v S (fst (spec_call cap e xs))"
    using Cons.prems by (intro holds_since_call) auto
  from Cons.IH [OF this] Cons.prems show ?case
    by (auto simp: split_def Let_def)
qed simp

lemma holds_since_put:
  assumes "distinct (map fst xs)"
  shows "holds_since k v S (spec_put cap k v xs)"
proof -
  obtain ys where ys: "spec_put cap k v xs = (k, v) # ys" by (simp add: spec_put_def)
  then have "distinct (map fst ((k, v) # ys))"
    using assms distinct_without [of xs k]
    by (auto simp: spec_put_def set_without map_of_eq_None_iff map_butlast distinct_butlast
        dest: in_set_butlastD split: if_splits)
  with ys show ?thesis unfolding holds_since_def by (intro exI [of _ "[]"] exI [of _ ys]) simp
qed

lemma holds_since_get:
  assumes "holds_since k v S xs"
  shows "snd (spec_get k xs) = Some v"
proof -
  have "map_of xs k = Some v" using assms unfolding holds_since_def by (auto intro: map_of_is_SomeI)
  then show ?thesis by (simp add: spec_get_def)
qed

lemma run_spec_append:
  "run_spec g (xs @ ys) a =
     (fst (run_spec g ys (fst (run_spec g xs a))),
      snd (run_spec g xs a) @ snd (run_spec g ys (fst (run_spec g xs a))))"
  by (induction xs arbitrary: a) (auto simp: split_def Let_def)

lemma LRU_run_fresh:
  fixes es :: "('k, 'v) LRU_call list"
  assumes "0 < unat cap"
  shows "\<exists>t rs. run_calls LRU_run_call es (LRU_new cap) = Inr (t, rs) \<and> LRU_inv t \<and>
     capacity t = cap \<and> run_spec (spec_call (unat cap)) es [] = (LRU_abs t, rs)"
  using lru.run_simulates [OF LRU_inv_new [OF assms], of es]
  by (simp add: LRU_new_def LRU_abs_def) (metis unsigned_word_eqI)

section \<open>Properties\<close>



text \<open>
  A value just put survives as long as fewer than \<open>capacity\<close> other keys are touched: after any
  history, if the calls since \<open>put(k, v)\<close> only name keys of a set smaller than the capacity that
  does not contain \<open>k\<close>, then \<open>get(k)\<close> returns \<open>v\<close>.
\<close>

lemma LRU_retains:
  assumes "finite S" "card S < unat cap" "k \<notin> S" "call_key ` set es \<subseteq> S"
  shows "\<exists>t rs. run_calls LRU_run_call (hist @ Put k v # es @ [Get k]) (LRU_new cap) = Inr (t, rs) \<and>
     last rs = Some v"
proof -
  let ?run = "run_spec (spec_call (unat cap))"
  let ?xs = "fst (?run hist [])"
  have pos: "0 < unat cap" using assms(2) by simp
  from LRU_run_fresh [OF pos, of "hist @ Put k v # es @ [Get k]"] obtain t rs where
    t: "run_calls LRU_run_call (hist @ Put k v # es @ [Get k]) (LRU_new cap) = Inr (t, rs)"
      "?run (hist @ Put k v # es @ [Get k]) [] = (LRU_abs t, rs)" by blast
  from LRU_run_fresh [OF pos, of hist] obtain h where "LRU_inv h" "?xs = LRU_abs h" by fastforce
  then have "distinct (map fst ?xs)" by (simp add: LRU_inv_def LRU_abs_def)
  then have "holds_since k v S (spec_put (unat cap) k v ?xs)" by (rule holds_since_put)
  from holds_since_calls [OF this assms]
  have "snd (spec_get k (fst (?run es (spec_put (unat cap) k v ?xs)))) = Some v"
    by (rule holds_since_get)
  then have "last (snd (?run (hist @ Put k v # es @ [Get k]) [])) = Some v"
    by (simp add: run_spec_append split_def Let_def)
  with t show ?thesis by auto
qed

text \<open>
  A cache made with capacity zero is not an empty cache: its first \<open>put\<close> takes the last
  element of an empty list, which is undefined.
\<close>

lemma LRU_capacity_zero:
  "LRU_put k v (LRU_new 0) = Inl Empty_Container"
  by (simp add: LRU_put_def LRU_new_def list_back_def)

end
