(* ===== verification/Backoff.thy ===== *)
theory Backoff
  imports Prelude
begin

text \<open>
  \<open>src/foundation/exponential_backoff_iterator.h\<close>: the iterator that yields the delays of an
  exponential backoff, and \<open>exponential_retry\<close>, which calls a functor until it succeeds or the
  delays run out. The counters are 32 bit words and the delay is computed on 64 bits, as in the
  code. The random generator is a value of type \<open>'g\<close>; a draw from
  \<open>uniform_int_distribution(0, hi)\<close> is the parameter \<open>dist\<close>, of which only
  \<open>fst (dist hi g) \<le> hi\<close> is used. The functor and \<open>sleep_for\<close> act on a world \<open>'w\<close>.
\<close>

section \<open>The iterator\<close>

record 'g Exponential_Backoff_Iterator =
  base :: uint
  max_retries :: uint
  capped :: uint
  jitter :: bool
  rng :: "'g option"
  current_retry :: uint
  current_value :: uint

type_synonym 'g draw = "ulonglong \<Rightarrow> 'g \<Rightarrow> ulonglong \<times> 'g"

definition UINT_MAX :: uint where "UINT_MAX = - 1"

definition Backoff_calculated :: "'g Exponential_Backoff_Iterator \<Rightarrow> ulonglong" where
  "Backoff_calculated it =
     (let calculated = ucast (base it);
          calculated = (if current_retry it < 64 then push_bit (unat (current_retry it)) calculated
                        else ucast (capped it))
      in if calculated > ucast (capped it) then ucast (capped it) else calculated)"

definition Backoff_compute ::
  "'g draw \<Rightarrow> 'g Exponential_Backoff_Iterator \<Rightarrow> 'g Exponential_Backoff_Iterator" where
  "Backoff_compute dist it =
     (let calculated = Backoff_calculated it in
      case (jitter it, rng it) of
        (True, Some g) \<Rightarrow>
          (let (calculated, g') = dist calculated g
           in it\<lparr> rng := Some g', current_value := ucast calculated \<rparr>)
      | _ \<Rightarrow> it\<lparr> current_value := ucast calculated \<rparr>)"

text \<open>\<open>generator\<close> is the generator made from \<open>std::random_device\<close>, used only with jitter.\<close>

definition Backoff_new ::
  "'g draw \<Rightarrow> 'g option \<Rightarrow> uint \<Rightarrow> uint \<Rightarrow> uint \<Rightarrow> bool \<Rightarrow> 'g Exponential_Backoff_Iterator" where
  "Backoff_new dist generator b retries cap jit =
     Backoff_compute dist
       \<lparr> base = b, max_retries = retries, capped = cap, jitter = jit,
         rng = (if jit then generator else None), current_retry = 0, current_value = 0 \<rparr>"

definition Backoff_sentinel :: "'g Exponential_Backoff_Iterator" where
  "Backoff_sentinel =
     \<lparr> base = 0, max_retries = 0, capped = 0, jitter = False, rng = None,
       current_retry = UINT_MAX, current_value = 0 \<rparr>"

definition Backoff_dereference :: "'g Exponential_Backoff_Iterator \<Rightarrow> uint" where
  "Backoff_dereference it = current_value it"

definition Backoff_equal ::
  "'g Exponential_Backoff_Iterator \<Rightarrow> 'g Exponential_Backoff_Iterator \<Rightarrow> bool" where
  "Backoff_equal it other \<longleftrightarrow>
     (current_retry it \<ge> max_retries it \<and> current_retry other > max_retries other) \<or>
     (base it = base other \<and> current_retry it = current_retry other)"

definition Backoff_increment ::
  "'g draw \<Rightarrow> 'g Exponential_Backoff_Iterator \<Rightarrow> 'g Exponential_Backoff_Iterator" where
  "Backoff_increment dist it =
     (if current_retry it < max_retries it then
        (let it = it\<lparr> current_retry := current_retry it + 1 \<rparr> in
         if current_retry it < max_retries it then Backoff_compute dist it else it)
      else it)"

definition exponential_backoff ::
  "'g Exponential_Backoff_Iterator \<Rightarrow>
     'g Exponential_Backoff_Iterator \<times> 'g Exponential_Backoff_Iterator" where
  "exponential_backoff i = (i, Backoff_sentinel)"

section \<open>Retrying\<close>

text \<open>What \<open>exponential_retry\<close> uses of its surroundings.\<close>

record ('g, 'w) backoff_env =
  draw :: "'g draw"
  seed :: "'w \<Rightarrow> 'g \<times> 'w"
  sleep_for :: "uint \<Rightarrow> 'w \<Rightarrow> 'w"

lemma UINT_MAX_bounds: "0 < UINT_MAX" "x \<le> UINT_MAX"
  by (simp_all add: UINT_MAX_def word_gt_0)

lemma not_equal_sentinel:
  "\<not> Backoff_equal it Backoff_sentinel \<longleftrightarrow> current_retry it < max_retries it"
proof -
  have "current_retry it \<noteq> UINT_MAX" if "current_retry it < max_retries it"
    using that UINT_MAX_bounds(2) [of "max_retries it"] by auto
  then show ?thesis
    using UINT_MAX_bounds(1) by (auto simp: Backoff_equal_def Backoff_sentinel_def not_le)
qed

lemma Backoff_compute_fields [simp]:
  "base (Backoff_compute dist it) = base it"
  "max_retries (Backoff_compute dist it) = max_retries it"
  "capped (Backoff_compute dist it) = capped it"
  "jitter (Backoff_compute dist it) = jitter it"
  "current_retry (Backoff_compute dist it) = current_retry it"
  by (simp_all add: Backoff_compute_def Let_def split_def split: bool.splits option.splits)

lemma Backoff_increment_fields [simp]:
  "base (Backoff_increment dist it) = base it"
  "max_retries (Backoff_increment dist it) = max_retries it"
  "capped (Backoff_increment dist it) = capped it"
  "jitter (Backoff_increment dist it) = jitter it"
  by (simp_all add: Backoff_increment_def Let_def)

lemma Backoff_increment_retry:
  "current_retry it < max_retries it \<Longrightarrow>
   unat (current_retry (Backoff_increment dist it)) = Suc (unat (current_retry it))"
  by (simp add: Backoff_increment_def Let_def unat_inc_below)

text \<open>
  The range-based \<open>for\<close> of the code: the iterator is compared with the end, dereferenced for the
  body, incremented. It ends because each turn brings the retry counter nearer to its limit.
\<close>

function retry_loop ::
  "('g, 'w) backoff_env \<Rightarrow> ('w \<Rightarrow> bool \<times> 'w) \<Rightarrow> 'g Exponential_Backoff_Iterator \<Rightarrow> 'w \<Rightarrow> bool \<times> 'w"
where
  "retry_loop env func it w =
     (if Backoff_equal it (snd (exponential_backoff it)) then (False, w)
      else
        (let w = sleep_for env (Backoff_dereference it) w;
             (ok, w) = func w
         in if ok then (True, w) else retry_loop env func (Backoff_increment (draw env) it) w))"
  by auto
termination
proof (relation "measure (\<lambda>(env, func, it, w). unat (max_retries it) - unat (current_retry it))",
    goal_cases)
  case (2 env func it w)
  then have lt: "current_retry it < max_retries it"
    by (simp add: exponential_backoff_def not_equal_sentinel)
  from Backoff_increment_retry [OF this] lt show ?case
    by (simp add: word_less_nat_alt)
qed simp

declare retry_loop.simps [simp del]

definition exponential_retry ::
  "('g, 'w) backoff_env \<Rightarrow> uint \<Rightarrow> uint \<Rightarrow> ('w \<Rightarrow> bool \<times> 'w) \<Rightarrow> uint \<Rightarrow> bool \<Rightarrow> 'w \<Rightarrow> bool \<times> 'w" where
  "exponential_retry env b retries func cap jit w =
     (let (ok, w) = func w in
      if ok then (True, w)
      else
        (let (g, w) = (if jit then map_prod Some id (seed env w) else (None, w));
             (begin, _) = exponential_backoff (Backoff_new (draw env) g b retries cap jit)
         in retry_loop env func begin w))"

section \<open>The delays\<close>

text \<open>The delays of the iterator, from its current position on.\<close>

function Backoff_delays :: "'g draw \<Rightarrow> 'g Exponential_Backoff_Iterator \<Rightarrow> uint list" where
  "Backoff_delays dist it =
     (if Backoff_equal it Backoff_sentinel then []
      else Backoff_dereference it # Backoff_delays dist (Backoff_increment dist it))"
  by auto
termination
proof (relation "measure (\<lambda>(dist, it). unat (max_retries it) - unat (current_retry it))", goal_cases)
  case (2 dist it)
  then have lt: "current_retry it < max_retries it"
    by (simp add: not_equal_sentinel)
  from Backoff_increment_retry [OF this] lt show ?case
    by (simp add: word_less_nat_alt)
qed simp

declare Backoff_delays.simps [simp del]

text \<open>Trying once per delay, after the delay, until a try succeeds.\<close>

fun tries :: "('w \<Rightarrow> bool \<times> 'w) \<Rightarrow> (uint \<Rightarrow> 'w \<Rightarrow> 'w) \<Rightarrow> uint list \<Rightarrow> 'w \<Rightarrow> bool \<times> 'w" where
  "tries func sleep [] w = (False, w)"
| "tries func sleep (d # ds) w =
     (case func (sleep d w) of (True, w) \<Rightarrow> (True, w) | (False, w) \<Rightarrow> tries func sleep ds w)"

lemma retry_loop_tries:
  "retry_loop env func it w = tries func (sleep_for env) (Backoff_delays (draw env) it) w"
proof (induction env func it w rule: retry_loop.induct)
  case (1 env func it w)
  show ?case
  proof (cases "Backoff_equal it Backoff_sentinel")
    case True
    then show ?thesis
      by (simp add: retry_loop.simps [of env func it] Backoff_delays.simps [of _ it]
          exponential_backoff_def)
  next
    case False
    obtain ok w' where f: "func (sleep_for env (Backoff_dereference it) w) = (ok, w')" by fastforce
    with False 1 show ?thesis
      by (cases ok) (simp_all add: retry_loop.simps [of env func it]
          Backoff_delays.simps [of _ it] exponential_backoff_def)
  qed
qed

text \<open>A computed delay never exceeds the cap nor, without overflow, the exponential.\<close>

definition honest_draw :: "'g draw \<Rightarrow> bool" where
  "honest_draw dist \<longleftrightarrow> (\<forall>hi g. fst (dist hi g) \<le> hi)"

lemma unat_ucast_uint: "unat (ucast (x :: uint) :: ulonglong) = unat x"
proof -
  have "unat x < 2 ^ 64" using unsigned_less [of x, where 'a = nat] by simp
  then show ?thesis by (simp add: unsigned_ucast_eq take_bit_nat_eq_self)
qed

lemma unat_shifted_base:
  "unat (push_bit r (ucast (x :: uint)) :: ulonglong) = take_bit 64 (unat x * 2 ^ r)"
proof -
  have "unat (push_bit r (ucast x) :: ulonglong) = take_bit 64 (push_bit r (unat x))"
    by (simp add: unsigned_push_bit_eq unat_ucast_uint)
  then show ?thesis by (simp add: push_bit_eq_mult)
qed

lemma unat_calculated:
  assumes "unat (current_retry it) < 64"
  shows "unat (Backoff_calculated it) =
    min (take_bit 64 (unat (base it) * 2 ^ unat (current_retry it))) (unat (capped it))"
  using assms
  by (auto simp: Backoff_calculated_def Let_def word_less_nat_alt min_def unat_ucast_uint
      unat_shifted_base)

lemma calculated_le_cap: "unat (Backoff_calculated it) \<le> unat (capped it)"
  by (auto simp: Backoff_calculated_def Let_def word_less_nat_alt unat_ucast_uint not_less)

lemma unat_ucast_small:
  assumes "unat (c :: ulonglong) \<le> unat (k :: uint)"
  shows "unat (ucast c :: uint) = unat c"
proof -
  have "unat k < 2 ^ 32" using unsigned_less [of k, where 'a = nat] by simp
  with assms show ?thesis by (simp add: unsigned_ucast_eq take_bit_nat_eq_self)
qed

lemma compute_value_le:
  assumes "honest_draw dist"
  shows "unat (current_value (Backoff_compute dist it)) \<le> unat (Backoff_calculated it)"
proof (cases "jitter it \<and> rng it \<noteq> None")
  case True
  then obtain g where g: "rng it = Some g" by auto
  have "unat (fst (dist (Backoff_calculated it) g)) \<le> unat (Backoff_calculated it)"
    using assms by (simp add: honest_draw_def word_le_nat_alt)
  moreover from this have "unat (fst (dist (Backoff_calculated it) g)) \<le> unat (capped it)"
    using calculated_le_cap order_trans by blast
  ultimately show ?thesis
    using True g by (simp add: Backoff_compute_def Let_def split_def unat_ucast_small)
qed (auto simp: Backoff_compute_def Let_def unat_ucast_small [OF calculated_le_cap]
      split: bool.splits option.splits)

lemma compute_value_plain:
  "\<not> jitter it \<Longrightarrow> unat (current_value (Backoff_compute dist it)) = unat (Backoff_calculated it)"
  by (simp add: Backoff_compute_def Let_def unat_ucast_small [OF calculated_le_cap])

text \<open>
  An iterator that stands at a delay it has computed. \<open>bound r\<close> is what the delay of retry \<open>r\<close>
  must respect.
\<close>

definition Backoff_computed ::
  "'g draw \<Rightarrow> 'g Exponential_Backoff_Iterator \<Rightarrow> bool" where
  "Backoff_computed dist it \<longleftrightarrow> (\<exists>j. it = Backoff_compute dist j)"

lemma delays_length:
  "length (Backoff_delays dist it) = unat (max_retries it) - unat (current_retry it)"
proof (induction dist it rule: Backoff_delays.induct)
  case (1 dist it)
  show ?case
  proof (cases "current_retry it < max_retries it")
    case True
    with 1 Backoff_increment_retry [OF True, of dist] show ?thesis
      by (simp add: Backoff_delays.simps [of dist it] not_equal_sentinel word_less_nat_alt)
  next
    case False
    then show ?thesis using not_equal_sentinel [of it]
      by (simp add: Backoff_delays.simps [of dist it] word_less_nat_alt)
  qed
qed

text \<open>The delay of each retry is what \<open>compute\<close> gives at some iterator with that retry count.\<close>

lemma delays_nth:
  assumes "Backoff_computed dist it" "r < length (Backoff_delays dist it)"
  shows "\<exists>j. base j = base it \<and> capped j = capped it \<and> jitter j = jitter it \<and>
     unat (current_retry j) = unat (current_retry it) + r \<and>
     Backoff_delays dist it ! r = current_value (Backoff_compute dist j)"
  using assms
proof (induction dist it arbitrary: r rule: Backoff_delays.induct)
  case (1 dist it)
  from 1(3) delays_length [of dist it] have lt: "current_retry it < max_retries it"
    by (simp add: word_less_nat_alt)
  let ?next = "Backoff_increment dist it"
  have ds: "Backoff_delays dist it = current_value it # Backoff_delays dist ?next"
    using lt not_equal_sentinel [of it]
    by (simp add: Backoff_delays.simps [of dist it] Backoff_dereference_def)
  show ?case
  proof (cases r)
    case 0
    with 1(2) ds show ?thesis by (auto simp: Backoff_computed_def)
  next
    case (Suc r')
    then have r': "r' < length (Backoff_delays dist ?next)" using 1(3) ds by simp
    then have "current_retry ?next < max_retries ?next"
      using delays_length [of dist ?next] by (simp add: word_less_nat_alt)
    then have "Backoff_computed dist ?next"
      using lt by (auto simp: Backoff_increment_def Backoff_computed_def Let_def split: if_splits)
    from 1(1) [OF _ this r'] lt not_equal_sentinel [of it] show ?thesis
      by (simp add: ds Suc Backoff_increment_retry [OF lt])
  qed
qed

lemma Backoff_new_computed: "Backoff_computed dist (Backoff_new dist g b retries cap jit)"
  by (auto simp: Backoff_computed_def Backoff_new_def)

lemma Backoff_new_fields [simp]:
  "base (Backoff_new dist g b retries cap jit) = b"
  "max_retries (Backoff_new dist g b retries cap jit) = retries"
  "capped (Backoff_new dist g b retries cap jit) = cap"
  "jitter (Backoff_new dist g b retries cap jit) = jit"
  "current_retry (Backoff_new dist g b retries cap jit) = 0"
  by (simp_all add: Backoff_new_def)

lemma new_delays_nth:
  assumes "r < unat retries"
  shows "\<exists>j. base j = b \<and> capped j = cap \<and> jitter j = jit \<and> unat (current_retry j) = r \<and>
     Backoff_delays dist (Backoff_new dist g b retries cap jit) ! r =
       current_value (Backoff_compute dist j)"
  using delays_nth [OF Backoff_new_computed, of r dist g b retries cap jit] assms
  by (simp add: delays_length)

text \<open>The retry loop in terms of the delays.\<close>

lemma exponential_retry_eq:
  assumes "func w = (ok, w1)"
  shows "exponential_retry env b retries func cap jit w =
     (if ok then (True, w1)
      else tries func (sleep_for env)
             (Backoff_delays (draw env)
                (Backoff_new (draw env) (if jit then Some (fst (seed env w1)) else None)
                   b retries cap jit))
             (if jit then snd (seed env w1) else w1))"
  using assms
  by (simp add: exponential_retry_def exponential_backoff_def retry_loop_tries split_def Let_def
      map_prod_def)

section \<open>Properties\<close>

text \<open>
  C35: \<open>exponential_retry\<close> always returns. It calls the functor once and then, while it fails, at
  most \<open>max_retries\<close> more times, each after a sleep; no sleep is longer than the cap, nor than
  \<open>base * 2^r\<close> at retry \<open>r\<close> as long as that fits 64 bits. It returns true exactly when a call
  succeeded, and calls nothing after that.
\<close>

theorem exponential_retry_tries:
  assumes "honest_draw (draw env)"
  shows "\<exists>ds. length ds = unat retries \<and>
     (\<forall>r < length ds. unat (ds ! r) \<le> unat cap \<and>
        (r < 64 \<and> unat b * 2 ^ r < 2 ^ 64 \<longrightarrow> unat (ds ! r) \<le> unat b * 2 ^ r)) \<and>
     exponential_retry env b retries func cap jit w =
       (case func w of
          (True, w) \<Rightarrow> (True, w)
        | (False, w) \<Rightarrow> tries func (sleep_for env) ds (if jit then snd (seed env w) else w))"
proof -
  obtain ok w1 where f: "func w = (ok, w1)" by fastforce
  define g where "g = (if jit then Some (fst (seed env w1)) else None)"
  define it where "it = Backoff_new (draw env) g b retries cap jit"
  let ?ds = "Backoff_delays (draw env) it"
  have len: "length ?ds = unat retries" by (simp add: it_def delays_length)
  have "unat (?ds ! r) \<le> unat cap \<and>
      (r < 64 \<and> unat b * 2 ^ r < 2 ^ 64 \<longrightarrow> unat (?ds ! r) \<le> unat b * 2 ^ r)"
    if r: "r < unat retries" for r
  proof -
    from new_delays_nth [OF r, of b cap jit "draw env" g] obtain j where
      j: "base j = b" "capped j = cap" "unat (current_retry j) = r"
        "?ds ! r = current_value (Backoff_compute (draw env) j)" by (auto simp: it_def)
    then have "unat (?ds ! r) \<le> unat (Backoff_calculated j)"
      using compute_value_le [OF assms] by simp
    with calculated_le_cap [of j] unat_calculated [of j] j show ?thesis
      by (auto simp: take_bit_nat_eq_self)
  qed
  moreover have "exponential_retry env b retries func cap jit w =
      (if ok then (True, w1)
       else tries func (sleep_for env) ?ds (if jit then snd (seed env w1) else w1))"
    unfolding it_def g_def by (rule exponential_retry_eq) (rule f)
  ultimately show ?thesis using len f by (intro exI [of _ ?ds]) (auto split: bool.split)
qed

text \<open>A world that only logs the sleeps, and a functor that succeeds at its fourth call.\<close>

definition log_env :: "(unit, nat \<times> uint list) backoff_env" where
  "log_env = \<lparr> draw = (\<lambda>hi g. (hi, g)), seed = (\<lambda>w. ((), w)),
     sleep_for = (\<lambda>d (n, ds). (n, ds @ [d])) \<rparr>"

definition fourth_call :: "nat \<times> uint list \<Rightarrow> bool \<times> nat \<times> uint list" where
  "fourth_call = (\<lambda>(n, ds). (n = 3, Suc n, ds))"

theorem exponential_retry_tries_witness:
  "(\<exists>ds. length ds = unat (5 :: uint) \<and>
     (\<forall>r < length ds. unat (ds ! r) \<le> unat (3 :: uint) \<and>
        (r < 64 \<and> unat (1 :: uint) * 2 ^ r < 2 ^ 64 \<longrightarrow> unat (ds ! r) \<le> unat (1 :: uint) * 2 ^ r)) \<and>
     exponential_retry log_env 1 5 fourth_call 3 True (0, []) =
       tries fourth_call (sleep_for log_env) ds (1, [])) \<and>
   exponential_retry log_env 1 5 fourth_call 3 True (0, []) = (True, 4, [1, 2, 3])"
proof
  have "honest_draw (draw log_env)" by (simp add: honest_draw_def log_env_def)
  from exponential_retry_tries [OF this, of 5 3 1 fourth_call True "(0, [])"]
  show "\<exists>ds. length ds = unat (5 :: uint) \<and>
     (\<forall>r < length ds. unat (ds ! r) \<le> unat (3 :: uint) \<and>
        (r < 64 \<and> unat (1 :: uint) * 2 ^ r < 2 ^ 64 \<longrightarrow> unat (ds ! r) \<le> unat (1 :: uint) * 2 ^ r)) \<and>
     exponential_retry log_env 1 5 fourth_call 3 True (0, []) =
       tries fourth_call (sleep_for log_env) ds (1, [])"
    by (simp add: fourth_call_def log_env_def)
  show "exponential_retry log_env 1 5 fourth_call 3 True (0, []) = (True, 4, [1, 2, 3])"
    by code_simp
qed



end
