(* ===== verification/Process_Killer.thy ===== *)
theory Process_Killer
  imports Backoff
begin

text \<open>
  \<open>src/process/process_killer.cpp\<close>: killing a process with retries, first with \<open>SIGTERM\<close>, then
  with \<open>SIGKILL\<close>. The system call \<open>kill\<close> is a parameter on a world \<open>'w\<close>: \<open>None\<close> is success,
  \<open>Some e\<close> a failure with \<open>errno = e\<close>.
\<close>

section \<open>The code\<close>

definition EPERM :: int where "EPERM = 1"
definition ESRCH :: int where "ESRCH = 3"
definition SIGTERM :: int where "SIGTERM = 15"
definition SIGKILL :: int where "SIGKILL = 9"

record ('g, 'w) killer_env = "('g, 'w) backoff_env" +
  sys_kill :: "pid_t \<Rightarrow> int \<Rightarrow> 'w \<Rightarrow> int option \<times> 'w"

definition Process_Killer_alive :: "('g, 'w) killer_env \<Rightarrow> pid_t \<Rightarrow> 'w \<Rightarrow> bool \<times> 'w" where
  "Process_Killer_alive env pid w =
     (let (res, w) = sys_kill env pid 0 w in (res = None \<or> res = Some EPERM, w))"

text \<open>The lambda passed to \<open>exponential_retry\<close>: \<open>::kill(pid, sig) == 0 && !alive(pid)\<close>.\<close>

definition kill_attempt :: "('g, 'w) killer_env \<Rightarrow> pid_t \<Rightarrow> int \<Rightarrow> 'w \<Rightarrow> bool \<times> 'w" where
  "kill_attempt env pid sig w =
     (let (res, w) = sys_kill env pid sig w in
      if res = None then (let (a, w) = Process_Killer_alive env pid w in (\<not> a, w))
      else (False, w))"

definition Process_Killer_elegant_kill :: "('g, 'w) killer_env \<Rightarrow> pid_t \<Rightarrow> 'w \<Rightarrow> bool \<times> 'w" where
  "Process_Killer_elegant_kill env pid w =
     (let (a, w) = Process_Killer_alive env pid w in
      if \<not> a then (False, w)
      else
        (let (ok, w) = exponential_retry (backoff_env.truncate env) 1 3
               (kill_attempt env pid SIGTERM) UINT_MAX True w
         in if ok then (True, w)
            else exponential_retry (backoff_env.truncate env) 1 3
               (kill_attempt env pid SIGKILL) UINT_MAX True w))"

definition Process_Killer_terminate :: "('g, 'w) killer_env \<Rightarrow> pid_t \<Rightarrow> 'w \<Rightarrow> 'w" where
  "Process_Killer_terminate env pid w = snd (Process_Killer_elegant_kill env pid w)"

text \<open>The body is a to-do comment: it does nothing.\<close>

definition Process_Killer_terminate_with_children :: "('g, 'w) killer_env \<Rightarrow> pid_t \<Rightarrow> 'w \<Rightarrow> 'w" where
  "Process_Killer_terminate_with_children env pid w = w"

section \<open>Results of a retried functor\<close>

text \<open>What every success of the functor establishes holds when the retries succeed.\<close>

lemma tries_success:
  assumes "\<And>w w'. func w = (True, w') \<Longrightarrow> P w'" "tries func sleep ds w = (True, w')"
  shows "P w'"
  using assms(2)
proof (induction ds arbitrary: w)
  case (Cons d ds)
  then show ?case by (auto split: prod.splits bool.splits intro: assms(1))
qed simp

text \<open>A functor that fails in a set of worlds closed under its steps and sleeping never succeeds.\<close>

lemma tries_failure:
  assumes "\<And>w. P w \<Longrightarrow> \<exists>w'. func w = (False, w') \<and> P w'" "\<And>d w. P w \<Longrightarrow> P (sleep d w)" "P w"
  shows "\<exists>w'. tries func sleep ds w = (False, w') \<and> P w'"
  using assms(3)
proof (induction ds arbitrary: w)
  case (Cons d ds)
  from assms(1) [OF assms(2) [OF Cons.prems, of d]] obtain w' where
    "func (sleep d w) = (False, w')" "P w'" by blast
  with Cons.IH show ?case by simp
qed simp

lemma retry_success:
  assumes "\<And>w w'. func w = (True, w') \<Longrightarrow> P w'"
    and "exponential_retry env b retries func cap jit w = (True, w')"
  shows "P w'"
proof -
  obtain ok w1 where f: "func w = (ok, w1)" by fastforce
  show ?thesis
  proof (cases ok)
    case True
    with assms exponential_retry_eq [of func w ok w1 env b retries cap jit, OF f] f show ?thesis by auto
  next
    case False
    with assms(2) exponential_retry_eq [of func w ok w1 env b retries cap jit, OF f]
    show ?thesis by (intro tries_success [of func P, OF assms(1)]) auto
  qed
qed

lemma retry_failure:
  assumes "\<And>w. P w \<Longrightarrow> \<exists>w'. func w = (False, w') \<and> P w'"
    and "\<And>d w. P w \<Longrightarrow> P (sleep_for env d w)" "\<And>w. P w \<Longrightarrow> P (snd (seed env w))" "P w"
  shows "\<exists>w'. exponential_retry env b retries func cap jit w = (False, w') \<and> P w'"
proof -
  from assms(1) [OF assms(4)] obtain w1 where f: "func w = (False, w1)" "P w1" by blast
  then have "P (if jit then snd (seed env w1) else w1)" using assms(3) by simp
  from tries_failure [of P func "sleep_for env", OF assms(1,2) this]
  show ?thesis by (simp add: exponential_retry_eq [of func w False w1, OF f(1)])
qed

section \<open>Properties\<close>

text \<open>
  The signal 0 only asks: \<open>kill(pid, 0)\<close> sends nothing (POSIX), so asking again gives the same
  answer.
\<close>

definition probe_only :: "('g, 'w) killer_env \<Rightarrow> bool" where
  "probe_only env \<longleftrightarrow> (\<forall>pid w. snd (sys_kill env pid 0 w) = w)"

definition is_alive :: "('g, 'w) killer_env \<Rightarrow> pid_t \<Rightarrow> 'w \<Rightarrow> bool" where
  "is_alive env pid w = fst (Process_Killer_alive env pid w)"

lemma alive_probe: "probe_only env \<Longrightarrow> Process_Killer_alive env pid w = (is_alive env pid w, w)"
  by (simp add: Process_Killer_alive_def is_alive_def probe_only_def split_def Let_def)

lemma kill_attempt_success:
  "probe_only env \<Longrightarrow> kill_attempt env pid sig w = (True, w') \<Longrightarrow> \<not> is_alive env pid w'"
  by (auto simp: kill_attempt_def alive_probe split_def Let_def split: if_splits)

text \<open>
  C37: When \<open>elegant_kill\<close> reports success the process is gone: it no longer answers in the final
  state. A process that does not exist to begin with is
  sent no signal and nothing is waited for.
\<close>

theorem elegant_kill_success:
  assumes "probe_only env"
  shows "(if is_alive env pid w then True
      else Process_Killer_elegant_kill env pid w = (False, w)) \<and>
     (\<forall>w'. Process_Killer_elegant_kill env pid w = (True, w') \<longrightarrow> \<not> is_alive env pid w')"
proof (intro conjI allI impI)
  show "if is_alive env pid w then True else Process_Killer_elegant_kill env pid w = (False, w)"
    using assms by (simp add: Process_Killer_elegant_kill_def alive_probe)
next
  fix w' assume r: "Process_Killer_elegant_kill env pid w = (True, w')"
  let ?retry = "\<lambda>sig. exponential_retry (backoff_env.truncate env) 1 3
    (kill_attempt env pid sig) UINT_MAX True"
  have "\<exists>sig v. ?retry sig v = (True, w')"
  proof (cases "?retry SIGTERM w")
    case (Pair ok v)
    with r assms show ?thesis
      by (cases ok) (auto simp: Process_Killer_elegant_kill_def alive_probe split: if_splits)
  qed
  then obtain sig v where "?retry sig v = (True, w')" by blast
  then show "\<not> is_alive env pid w'"
    by (rule retry_success [of "kill_attempt env pid sig" "\<lambda>v. \<not> is_alive env pid v", rotated])
       (rule kill_attempt_success [OF assms])
qed

text \<open>
  A small kernel for concrete runs: the state of the one process, the signals it
  got and the number of sleeps it survives once signalled.
\<close>

record toy_proc =
  exists :: bool
  term_after :: nat
  signals :: "int list"

definition toy_kill :: "pid_t \<Rightarrow> int \<Rightarrow> toy_proc \<Rightarrow> int option \<times> toy_proc" where
  "toy_kill pid sig w =
     (if \<not> exists w then (Some ESRCH, w)
      else if sig = 0 then (None, w)
      else if sig = SIGKILL then (None, w\<lparr> exists := False, signals := signals w @ [sig] \<rparr>)
      else (None, w\<lparr> signals := signals w @ [sig] \<rparr>))"

text \<open>A process that takes a while to clean up: it exits during a sleep after a signal.\<close>

definition toy_sleep :: "uint \<Rightarrow> toy_proc \<Rightarrow> toy_proc" where
  "toy_sleep d w =
     (if signals w = [] then w
      else if term_after w = 0 then w\<lparr> exists := False \<rparr> else w\<lparr> term_after := term_after w - 1 \<rparr>)"

definition toy_env :: "(unit, toy_proc) killer_env" where
  "toy_env = \<lparr> draw = (\<lambda>hi g. (hi, g)), seed = (\<lambda>w. ((), w)), sleep_for = toy_sleep,
     sys_kill = toy_kill \<rparr>"

definition stubborn :: toy_proc where
  "stubborn = \<lparr> exists = True, term_after = 10, signals = [] \<rparr>"

definition tidy :: toy_proc where
  "tidy = \<lparr> exists = True, term_after = 0, signals = [] \<rparr>"

lemma toy_probe_only: "probe_only toy_env"
  by (simp add: probe_only_def toy_env_def toy_kill_def)

theorem elegant_kill_success_witness:
  "fst (Process_Killer_elegant_kill toy_env 7 stubborn) \<and>
   \<not> is_alive toy_env 7 (snd (Process_Killer_elegant_kill toy_env 7 stubborn)) \<and>
   signals (snd (Process_Killer_elegant_kill toy_env 7 stubborn)) =
     [SIGTERM, SIGTERM, SIGTERM, SIGTERM, SIGKILL]"
proof -
  have "Process_Killer_elegant_kill toy_env 7 stubborn =
      (True, \<lparr> exists = False, term_after = 7,
               signals = [SIGTERM, SIGTERM, SIGTERM, SIGTERM, SIGKILL] \<rparr>)"
    by code_simp
  with elegant_kill_success [OF toy_probe_only, of 7 stubborn] show ?thesis by auto
qed

text \<open>
  A process that survives the moment of the first signal and is gone before the second is
  reported as not killed: every later \<open>kill\<close> fails with \<open>ESRCH\<close>, which the code does not tell
  from a failure to signal, so all retries are slept through, \<open>SIGKILL\<close> is tried on the
  process identifier that is free again, and the answer is false.
\<close>

lemma elegant_kill_misses_exit:
  assumes "probe_only env" and "is_alive env pid w"
    and "sys_kill env pid SIGTERM w = (None, w1)" and "is_alive env pid w1"
    and "\<And>v sig. gone v \<Longrightarrow> sys_kill env pid sig v = (Some ESRCH, v)"
    and "\<And>v d. gone v \<Longrightarrow> gone (sleep_for env d v)" and "\<And>v. gone v \<Longrightarrow> gone (snd (seed env v))"
    and "\<And>d. gone (sleep_for env d (snd (seed env w1)))"
  shows "\<exists>w'. Process_Killer_elegant_kill env pid w = (False, w') \<and> gone w'"
proof -
  let ?env = "backoff_env.truncate env"
  have fail: "\<exists>v'. kill_attempt env pid sig v = (False, v') \<and> gone v'" if "gone v" for v sig
    using assms(5) [OF that] that by (simp add: kill_attempt_def)
  have env: "sleep_for ?env = sleep_for env" "seed ?env = seed env"
    by (simp_all add: backoff_env.truncate_def)
  have first: "kill_attempt env pid SIGTERM w = (False, w1)"
    using assms(1-4) by (simp add: kill_attempt_def alive_probe)
  define ds where "ds = Backoff_delays (draw ?env)
    (Backoff_new (draw ?env) (Some (fst (seed env w1))) 1 3 UINT_MAX True)"
  have retry: "exponential_retry ?env 1 3 (kill_attempt env pid SIGTERM) UINT_MAX True w =
      tries (kill_attempt env pid SIGTERM) (sleep_for env) ds (snd (seed env w1))"
    by (simp add: exponential_retry_eq [of "kill_attempt env pid SIGTERM" w False w1, OF first] ds_def env)
  have "length ds = 3" by (simp add: ds_def delays_length)
  then obtain d es where ds: "ds = d # es" by (cases ds) auto
  from fail [OF assms(8), of SIGTERM d] obtain v where
    v: "kill_attempt env pid SIGTERM (sleep_for env d (snd (seed env w1))) = (False, v)" "gone v"
    by blast
  from tries_failure [of gone "kill_attempt env pid SIGTERM" "sleep_for env", OF fail assms(6) v(2)]
  obtain u where "exponential_retry ?env 1 3 (kill_attempt env pid SIGTERM) UINT_MAX True w = (False, u)"
    "gone u" unfolding retry ds using v(1) by force
  moreover from retry_failure [of gone "kill_attempt env pid SIGKILL" ?env u 1 3 UINT_MAX True]
  have "\<exists>w'. exponential_retry ?env 1 3 (kill_attempt env pid SIGKILL) UINT_MAX True u = (False, w')
      \<and> gone w'" using fail assms(6,7) calculation(2) by (simp add: env)
  ultimately show ?thesis
    using assms(1,2) by (simp add: Process_Killer_elegant_kill_def alive_probe)
qed

end
