(* ===== verification/Http_Codec.thy ===== *)
theory Http_Codec
  imports Prelude "HOL-Library.Char_ord"
begin

text \<open>
  Percent-decoding: \<open>char2hex\<close> of \<open>src/foundation/inline_utils.h\<close> and the decoding functions of
  \<open>src/httpd/http_helper.cpp\<close>. A pointer argument is an option, \<open>None\<close> for the null pointer; the
  range from \<open>src\<close> to \<open>end\<close> that the loop walks over is the list of the characters left. The
  output string \<open>res\<close> is passed in and out, since the code leaves a partial result in it when it
  fails. The reference is the usual percent-encoder, and the rule that every \<open>%\<close> must be
  followed by two hexadecimal digits.
\<close>

unbundle bit_operations_syntax

section \<open>The code\<close>

definition char2hex :: "char \<Rightarrow> int" where
  "char2hex c =
     (let n = (of_char c :: int) in
      if n \<ge> of_char (CHR ''0'') \<and> n \<le> of_char (CHR ''9'') then n - of_char (CHR ''0'')
      else if n \<ge> of_char (CHR ''A'') \<and> n \<le> of_char (CHR ''F'') then n - of_char (CHR ''A'') + 10
      else if n \<ge> of_char (CHR ''a'') \<and> n \<le> of_char (CHR ''f'') then n - of_char (CHR ''a'') + 10
      else - 1)"

definition HLPR_FLAG_NONE :: int where "HLPR_FLAG_NONE = 0"
definition HLPR_FLAG_SLASH :: int where "HLPR_FLAG_SLASH = push_bit 0 1"
definition HLPR_FLAG_SPACE :: int where "HLPR_FLAG_SPACE = push_bit 1 1"

abbreviation has_flag :: "int \<Rightarrow> int \<Rightarrow> bool" where
  "has_flag flags f \<equiv> flags AND f \<noteq> 0"

definition HEX_PAIR_LEN :: nat where "HEX_PAIR_LEN = 3"

function decode_loop :: "int \<Rightarrow> string \<Rightarrow> string \<Rightarrow> bool \<times> string" where
  "decode_loop flags src res =
     (if src = [] then (True, res)
      else if hd src = CHR ''%'' then
        (if length src < HEX_PAIR_LEN then (False, res)
         else
           (let h = char2hex (src ! 1); l = char2hex (src ! 2) in
            if h < 0 \<or> l < 0 then (False, res)
            else
              (let decoded = char_of (push_bit 4 h OR l);
                   res = (if decoded = CHR ''/'' then
                            (if has_flag flags HLPR_FLAG_SLASH then res @ [decoded]
                             else res @ take HEX_PAIR_LEN src)
                          else res @ [decoded])
               in decode_loop flags (drop HEX_PAIR_LEN src) res)))
      else if hd src = CHR ''+'' \<and> has_flag flags HLPR_FLAG_SPACE then
        decode_loop flags (tl src) (res @ '' '')
      else decode_loop flags (tl src) (res @ [hd src]))"
  by auto
termination
  by (relation "measure (\<lambda>(flags, src, res). length src)") (auto simp: HEX_PAIR_LEN_def)

declare decode_loop.simps [simp del]

definition decode_percent :: "string option \<Rightarrow> nat \<Rightarrow> string \<Rightarrow> int \<Rightarrow> bool \<times> string" where
  "decode_percent src len res flags =
     (case src of
        None \<Rightarrow> (False, res)
      | Some s \<Rightarrow> (if len = 0 then (True, []) else decode_loop flags (take len s) []))"

definition decode_path :: "string option \<Rightarrow> nat \<Rightarrow> string \<Rightarrow> int \<Rightarrow> bool \<times> string" where
  "decode_path src len res flags = decode_percent src len res flags"

definition decode_path_string :: "string option \<Rightarrow> nat \<Rightarrow> int \<Rightarrow> string" where
  "decode_path_string src len flags =
     (let (ok, res) = decode_path src len [] flags in if \<not> ok then [] else res)"

definition decode_query :: "string option \<Rightarrow> nat \<Rightarrow> string \<Rightarrow> int \<Rightarrow> bool \<times> string" where
  "decode_query src len res flags = decode_percent src len res flags"

definition decode_query_string :: "string option \<Rightarrow> nat \<Rightarrow> int \<Rightarrow> string" where
  "decode_query_string src len flags =
     (let (ok, res) = decode_query src len [] flags in if \<not> ok then [] else res)"

text \<open>The default arguments.\<close>

definition path_flags :: int where "path_flags = HLPR_FLAG_SLASH"
definition query_flags :: int where "query_flags = HLPR_FLAG_SLASH OR HLPR_FLAG_SPACE"

section \<open>Hexadecimal digits\<close>

definition is_hex :: "char \<Rightarrow> bool" where
  "is_hex c \<longleftrightarrow> (CHR ''0'' \<le> c \<and> c \<le> CHR ''9'') \<or> (CHR ''A'' \<le> c \<and> c \<le> CHR ''F'') \<or>
     (CHR ''a'' \<le> c \<and> c \<le> CHR ''f'')"

definition hex_digit :: "int \<Rightarrow> char" where
  "hex_digit n = ''0123456789ABCDEF'' ! nat n"

lemma char_le_int: "c \<le> d \<longleftrightarrow> (of_char c :: int) \<le> of_char d"
proof -
  have "(of_char x :: int) = int (of_char x)" for x :: char
    by (simp only: of_nat_of_char)
  then show ?thesis by (simp add: less_eq_char_def)
qed

lemma char2hex_nonneg_iff: "0 \<le> char2hex c \<longleftrightarrow> is_hex c"
  by (simp add: char2hex_def is_hex_def char_le_int Let_def) 

lemma char2hex_less: "char2hex c < 16"
  by (simp add: char2hex_def Let_def)

lemma hex_not_percent: "is_hex c \<Longrightarrow> c \<noteq> CHR ''%''"
  by (auto simp: is_hex_def char_le_int)

lemma char2hex_hex_digit: "0 \<le> n \<Longrightarrow> n < 16 \<Longrightarrow> char2hex (hex_digit n) = n"
proof -
  have "\<forall>n \<in> set [0..15]. char2hex (hex_digit n) = n" by code_simp
  then show "0 \<le> n \<Longrightarrow> n < 16 \<Longrightarrow> ?thesis" by simp
qed

lemma hex_pair: "0 \<le> h \<Longrightarrow> h < 16 \<Longrightarrow> 0 \<le> l \<Longrightarrow> l < 16 \<Longrightarrow> push_bit 4 h OR l = 16 * h + (l :: int)"
proof -
  have "\<forall>h \<in> set [0..15]. \<forall>l \<in> set [0..15]. push_bit 4 h OR l = 16 * h + (l :: int)" by code_simp
  then show "0 \<le> h \<Longrightarrow> h < 16 \<Longrightarrow> 0 \<le> l \<Longrightarrow> l < 16 \<Longrightarrow> ?thesis" by simp
qed

section \<open>Well-formed escapes\<close>

definition escapes_ok :: "string \<Rightarrow> bool" where
  "escapes_ok s \<longleftrightarrow>
     (\<forall>i < length s. s ! i = CHR ''%'' \<longrightarrow>
        i + 2 < length s \<and> is_hex (s ! (i + 1)) \<and> is_hex (s ! (i + 2)))"

lemma escapes_ok_Nil [simp]: "escapes_ok []"
  by (simp add: escapes_ok_def)

lemma escapes_ok_Cons:
  "escapes_ok (c # s) \<longleftrightarrow>
     (c = CHR ''%'' \<longrightarrow> 2 \<le> length s \<and> is_hex (s ! 0) \<and> is_hex (s ! 1)) \<and> escapes_ok s"
  by (auto simp: escapes_ok_def All_less_Suc2)

lemma escapes_ok_plain: "c \<noteq> CHR ''%'' \<Longrightarrow> escapes_ok (c # s) \<longleftrightarrow> escapes_ok s"
  by (simp add: escapes_ok_Cons)

lemma escapes_ok_escape:
  "escapes_ok (CHR ''%'' # h # l # s) \<longleftrightarrow> is_hex h \<and> is_hex l \<and> escapes_ok s"
  using hex_not_percent by (auto simp: escapes_ok_Cons)

lemma escapes_ok_short:
  assumes "s \<noteq> []" "hd s = CHR ''%''" "length s < HEX_PAIR_LEN"
  shows "\<not> escapes_ok s"
  using assms by (cases s) (auto simp: escapes_ok_Cons HEX_PAIR_LEN_def)

lemma three_or_more:
  assumes "\<not> length s < HEX_PAIR_LEN"
  obtains a b c t where "s = a # b # c # t"
  using assms by (cases s; cases "tl s"; cases "tl (tl s)") (auto simp: HEX_PAIR_LEN_def)

text \<open>The two sides of the conversion of one escape.\<close>

definition escape_value :: "int \<Rightarrow> char \<Rightarrow> char \<Rightarrow> string" where
  "escape_value flags h l =
     (let decoded = char_of (16 * char2hex h + char2hex l) in
      if decoded = CHR ''/'' \<and> \<not> has_flag flags HLPR_FLAG_SLASH then [CHR ''%'', h, l] else [decoded])"

lemma decode_loop_Nil: "decode_loop flags [] res = (True, res)"
  by (simp add: decode_loop.simps)

lemma decode_loop_escape:
  "decode_loop flags (CHR ''%'' # h # l # s) res =
     (if is_hex h \<and> is_hex l then decode_loop flags s (res @ escape_value flags h l)
      else (False, res))"
proof (cases "is_hex h \<and> is_hex l")
  case True
  then have "push_bit 4 (char2hex h) OR char2hex l = 16 * char2hex h + char2hex l"
    by (intro hex_pair) (simp_all add: char2hex_nonneg_iff char2hex_less)
  moreover have "\<not> char2hex h < 0" "\<not> char2hex l < 0"
    using True by (simp_all add: not_less char2hex_nonneg_iff)
  ultimately show ?thesis using True
    by (simp add: decode_loop.simps [of flags "_ # _"] HEX_PAIR_LEN_def Let_def
        escape_value_def numeral_2_eq_2 numeral_3_eq_3)
next
  case False
  then show ?thesis
    by (auto simp: decode_loop.simps [of flags "_ # _"] HEX_PAIR_LEN_def Let_def
        numeral_2_eq_2 char2hex_nonneg_iff not_le [symmetric])
qed

lemma decode_loop_short:
  "s \<noteq> [] \<Longrightarrow> hd s = CHR ''%'' \<Longrightarrow> length s < HEX_PAIR_LEN \<Longrightarrow> decode_loop flags s res = (False, res)"
  by (simp add: decode_loop.simps)

definition plain_value :: "int \<Rightarrow> char \<Rightarrow> char" where
  "plain_value flags c = (if c = CHR ''+'' \<and> has_flag flags HLPR_FLAG_SPACE then CHR '' '' else c)"

lemma decode_loop_plain:
  "c \<noteq> CHR ''%'' \<Longrightarrow> decode_loop flags (c # s) res = decode_loop flags s (res @ [plain_value flags c])"
  by (simp add: decode_loop.simps [of flags "c # s"] plain_value_def)

lemmas decode_loop_steps = decode_loop_Nil decode_loop_escape decode_loop_short decode_loop_plain

text \<open>Induction over the units of an encoded string: a plain character or an escape.\<close>

lemma unit_induct [case_names Nil plain short escape]:
  assumes "P []" "\<And>c s. c \<noteq> CHR ''%'' \<Longrightarrow> P s \<Longrightarrow> P (c # s)"
    and "\<And>s. s \<noteq> [] \<Longrightarrow> hd s = CHR ''%'' \<Longrightarrow> length s < HEX_PAIR_LEN \<Longrightarrow> P s"
    and "\<And>h l s. P s \<Longrightarrow> P (CHR ''%'' # h # l # s)"
  shows "P s"
proof (induction s rule: length_induct)
  case (1 s)
  consider "s = []" | c t where "s = c # t" "c \<noteq> CHR ''%''"
    | "s \<noteq> []" "hd s = CHR ''%''" "length s < HEX_PAIR_LEN"
    | "s \<noteq> []" "hd s = CHR ''%''" "\<not> length s < HEX_PAIR_LEN"
    by (cases s) auto
  then show ?case
  proof cases
    case 4
    from 4(3) obtain a h l t where "s = a # h # l # t" by (rule three_or_more)
    with 4 1 assms(4) show ?thesis by auto
  qed (use 1 assms in auto)
qed

lemma decode_loop_ok_iff: "fst (decode_loop flags s res) \<longleftrightarrow> escapes_ok s"
  by (induction s arbitrary: res rule: unit_induct)
     (auto simp: decode_loop_steps escapes_ok_plain escapes_ok_escape escapes_ok_short)

lemma decode_loop_length: "length (snd (decode_loop flags s res)) \<le> length res + length s"
proof (induction s arbitrary: res rule: unit_induct)
  case (plain c s)
  from plain(2) [of "res @ [plain_value flags c]"] plain(1) show ?case
    by (simp add: decode_loop_plain)
next
  case (escape h l s)
  have "length (escape_value flags h l) \<le> 3" by (simp add: escape_value_def Let_def)
  with escape [of "res @ escape_value flags h l"] show ?case
    by (simp add: decode_loop_escape)
qed (simp_all add: decode_loop_steps)

section \<open>The encoder it inverts\<close>

definition percent_escape :: "char \<Rightarrow> string" where
  "percent_escape c =
     [CHR ''%'', hex_digit (of_char c div 16), hex_digit (of_char c mod 16)]"

definition percent_encode :: "(char \<Rightarrow> bool) \<Rightarrow> string \<Rightarrow> string" where
  "percent_encode safe s = concat (map (\<lambda>c. if safe c then [c] else percent_escape c) s)"

text \<open>Which characters an encoder may leave alone for the flags of the decoder.\<close>

definition encoder_ok :: "int \<Rightarrow> (char \<Rightarrow> bool) \<Rightarrow> bool" where
  "encoder_ok flags safe \<longleftrightarrow>
     \<not> safe (CHR ''%'') \<and> (has_flag flags HLPR_FLAG_SPACE \<longrightarrow> \<not> safe (CHR ''+'')) \<and>
     (\<not> has_flag flags HLPR_FLAG_SLASH \<longrightarrow> safe (CHR ''/''))"

lemma of_char_digits:
  "0 \<le> (of_char c :: int) div 16" "(of_char c :: int) div 16 < 16"
  "0 \<le> (of_char c :: int) mod 16" "(of_char c :: int) mod 16 < 16"
proof -
  have "(of_char c :: int) = int (of_char c)" by (simp only: of_nat_of_char)
  moreover have "of_char c < (256 :: nat)" by simp
  ultimately show "0 \<le> (of_char c :: int) div 16" "(of_char c :: int) div 16 < 16"
    "0 \<le> (of_char c :: int) mod 16" "(of_char c :: int) mod 16 < 16"
    by linarith+
qed

lemma decode_escape:
  assumes "has_flag flags HLPR_FLAG_SLASH \<or> c \<noteq> CHR ''/''"
  shows "decode_loop flags (percent_escape c @ s) res = decode_loop flags s (res @ [c])"
proof -
  let ?h = "hex_digit (of_char c div 16)" and ?l = "hex_digit (of_char c mod 16)"
  have v: "char2hex ?h = of_char c div 16" "char2hex ?l = of_char c mod 16"
    by (simp_all add: char2hex_hex_digit of_char_digits)
  then have "is_hex ?h" "is_hex ?l"
    using of_char_digits [of c] char2hex_nonneg_iff by metis+
  moreover have "escape_value flags ?h ?l = [c]"
    using assms by (auto simp: escape_value_def v)
  ultimately show ?thesis by (simp add: percent_escape_def decode_loop_escape)
qed

lemma decode_loop_encode:
  assumes "encoder_ok flags safe"
  shows "decode_loop flags (percent_encode safe s) res = (True, res @ s)"
proof (induction s arbitrary: res)
  case (Cons c s)
  show ?case
  proof (cases "safe c")
    case True
    then have "c \<noteq> CHR ''%''" "plain_value flags c = c"
      using assms by (auto simp: encoder_ok_def plain_value_def)
    with True Cons show ?thesis by (simp add: percent_encode_def decode_loop_plain)
  next
    case False
    then have "has_flag flags HLPR_FLAG_SLASH \<or> c \<noteq> CHR ''/''"
      using assms by (auto simp: encoder_ok_def)
    with False Cons decode_escape [OF this] show ?thesis by (simp add: percent_encode_def)
  qed
qed (simp add: percent_encode_def decode_loop_Nil)

lemma decode_percent_encode:
  "encoder_ok flags safe \<Longrightarrow>
   decode_percent (Some (percent_encode safe s)) (length (percent_encode safe s)) res flags = (True, s)"
  using decode_loop_encode [of flags safe s "[]"]
  by (auto simp: decode_percent_def decode_loop_Nil)

section \<open>Codecs\<close>

text \<open>An encoding with the decoder that inverts it, as a client of the decoder sees it.\<close>

locale codec =
  fixes enc :: "'a \<Rightarrow> 'b"
    and dec :: "'b \<Rightarrow> 'a option"
  assumes dec_enc: "dec (enc x) = Some x"
begin

lemma enc_inj: "enc x = enc y \<longleftrightarrow> x = y"
  using dec_enc by (metis option.inject)

lemma dec_map: "map (the \<circ> dec) (map enc xs) = xs"
  by (induction xs) (simp_all add: dec_enc)

end

text \<open>The characters RFC 3986 calls unreserved.\<close>

definition unreserved :: "char \<Rightarrow> bool" where
  "unreserved c \<longleftrightarrow> (CHR ''0'' \<le> c \<and> c \<le> CHR ''9'') \<or> (CHR ''A'' \<le> c \<and> c \<le> CHR ''Z'') \<or>
     (CHR ''a'' \<le> c \<and> c \<le> CHR ''z'') \<or> c \<in> set ''-._~''"

lemma unreserved_encoder_ok: "encoder_ok path_flags unreserved" "encoder_ok query_flags unreserved"
  by (simp_all add: encoder_ok_def unreserved_def char_le_int path_flags_def query_flags_def
      HLPR_FLAG_SLASH_def HLPR_FLAG_SPACE_def)

definition decode_path_segment :: "string \<Rightarrow> string option" where
  "decode_path_segment s =
     (let (ok, res) = decode_path (Some s) (length s) [] path_flags in if ok then Some res else None)"

definition decode_query_part :: "string \<Rightarrow> string option" where
  "decode_query_part s =
     (let (ok, res) = decode_query (Some s) (length s) [] query_flags in if ok then Some res else None)"

interpretation path_codec: codec "percent_encode unreserved" decode_path_segment
  by unfold_locales
     (simp add: decode_path_segment_def decode_path_def decode_percent_encode unreserved_encoder_ok)

interpretation query_codec: codec "percent_encode unreserved" decode_query_part
  by unfold_locales
     (simp add: decode_query_part_def decode_query_def decode_percent_encode unreserved_encoder_ok)

text \<open>The characters of an encoded string are unreserved, a percent sign or hexadecimal digits.\<close>

lemma hex_digit_unreserved: "0 \<le> n \<Longrightarrow> n < 16 \<Longrightarrow> unreserved (hex_digit n)"
proof -
  have "\<forall>n \<in> set [0..15]. unreserved (hex_digit n)" by code_simp
  then show "0 \<le> n \<Longrightarrow> n < 16 \<Longrightarrow> ?thesis" by simp
qed

lemma set_percent_encode: "set (percent_encode unreserved s) \<subseteq> insert (CHR ''%'') (Collect unreserved)"
  using hex_digit_unreserved of_char_digits
  by (auto simp: percent_encode_def percent_escape_def)

lemma reserved_not_in_encoded:
  "c \<in> {CHR ''/'', CHR ''?'', CHR ''&'', CHR ''=''} \<Longrightarrow> c \<notin> set (percent_encode unreserved s)"
  using set_percent_encode [of s] by (auto simp: unreserved_def char_le_int)

section \<open>Properties\<close>

text \<open>
  C31: \<open>decode_percent\<close> accepts exactly the inputs in which every percent sign is followed by two
  hexadecimal digits within the given length, whatever the flags; it never produces more
  characters than it reads, and it refuses a null pointer, leaving the result untouched.
\<close>

theorem decode_percent_accepts:
  "(fst (decode_percent (Some src) len res flags) \<longleftrightarrow> escapes_ok (take len src)) \<and>
   length (snd (decode_percent (Some src) len res flags)) \<le> len \<and>
   decode_percent None len res flags = (False, res)"
  using decode_loop_length [of flags "take len src" "[]"]
  by (auto simp: decode_percent_def decode_loop_ok_iff)

text \<open>
  C32: Decoding inverts every percent-encoder that respects the flags: one that escapes the
  percent sign, escapes \<open>+\<close> when the decoder turns it into a space, and leaves \<open>/\<close> alone when
  the decoder keeps escaped slashes; any string of bytes comes back unchanged.
\<close>

theorem decode_percent_roundtrip:
  assumes "encoder_ok flags safe"
  shows "decode_percent (Some (percent_encode safe s)) (length (percent_encode safe s)) res flags
    = (True, s)"
  using assms by (rule decode_percent_encode)

theorem decode_percent_roundtrip_witness:
  "decode_percent (Some ''a%20b%2Fc%2B'') 12 [] query_flags = (True, ''a b/c+'')"
proof -
  have "percent_encode unreserved ''a b/c+'' = ''a%20b%2Fc%2B''" by code_simp
  with decode_percent_roundtrip [OF unreserved_encoder_ok(2), of "''a b/c+''" "[]"]
  show ?thesis by (simp add: eval_nat_numeral)
qed

end
