(* ===== verification/Http_Uri.thy ===== *)
theory Http_Uri
  imports Http_Codec
begin

text \<open>
  \<open>src/httpd/http_uri.h\<close>, \<open>src/httpd/http_uri_parser.cpp\<close> and \<open>src/foundation/tokenize.h\<close>: the
  request target split into path and query and decoded. The string algorithms of Boost are the
  parameter \<open>boost\<close>; \<open>boost_documented\<close> says what is used of them.
\<close>

section \<open>Boost string algorithms\<close>

record boost =
  boost_split :: "string \<Rightarrow> string \<Rightarrow> string list"
  boost_join :: "string list \<Rightarrow> string \<Rightarrow> string"
  char_separator_tokens :: "string \<Rightarrow> string option \<Rightarrow> bool \<Rightarrow> string \<Rightarrow> string list"
  starts_with :: "string \<Rightarrow> string \<Rightarrow> bool"

text \<open>
  \<open>split\<close> with \<open>is_any_of\<close> one character keeps empty fields, \<open>join\<close> puts the separator between the
  elements, a tokenizer with one dropped delimiter that drops empty tokens yields the non-empty
  fields, and \<open>starts_with\<close> tests for a prefix.
\<close>

definition boost_documented :: "boost \<Rightarrow> bool" where
  "boost_documented b \<longleftrightarrow>
     (\<forall>c s. boost_split b [c] s = split_on c s) \<and>
     (\<forall>xs s. boost_join b xs s = join_with s xs) \<and>
     (\<forall>c s. char_separator_tokens b [c] None False s = nonempty_fields c s) \<and>
     (\<forall>s p. starts_with b s p \<longleftrightarrow> take (length p) s = p)"

text \<open>The last argument says whether empty tokens are kept; \<open>drop_empty_tokens\<close> is the default.\<close>

definition tokenize :: "boost \<Rightarrow> string \<Rightarrow> string \<Rightarrow> string option \<Rightarrow> bool \<Rightarrow> string list" where
  "tokenize b input dropped_delims kept_delims empty_tokens =
     char_separator_tokens b dropped_delims kept_delims empty_tokens input"

section \<open>The parser\<close>

record HTTP_URI =
  target :: string
  raw_path :: string
  decoded_path :: string
  raw_query :: string
  query_params :: "(string \<times> string) list"

definition HTTP_URI_clear :: "HTTP_URI \<Rightarrow> HTTP_URI" where
  "HTTP_URI_clear uri =
     uri\<lparr> target := [], raw_path := [], decoded_path := [], raw_query := [], query_params := [] \<rparr>"

text \<open>\<open>std::string::find\<close> of a character; \<open>None\<close> is \<open>npos\<close>.\<close>

fun find_char :: "char \<Rightarrow> string \<Rightarrow> nat option" where
  "find_char c [] = None"
| "find_char c (x # xs) = (if x = c then Some 0 else map_option Suc (find_char c xs))"

text \<open>
  The loop over the segments: each is replaced by its decoding, or by what was decoded of it when
  the decoder fails (that is only traced).
\<close>

definition decode_segment :: "string \<Rightarrow> string" where
  "decode_segment seg = snd (decode_path (Some seg) (length seg) [] path_flags)"

definition HTTP_URI_Parser_parse_path :: "boost \<Rightarrow> HTTP_URI \<Rightarrow> bool \<times> HTTP_URI" where
  "HTTP_URI_Parser_parse_path b uri =
     (let segments = map decode_segment (boost_split b ''/'' (raw_path uri))
      in (True, uri\<lparr> decoded_path := boost_join b segments ''/'' \<rparr>))"

definition parse_query_token :: "string \<Rightarrow> string \<times> string" where
  "parse_query_token token =
     (case find_char (CHR ''='') token of
        None \<Rightarrow> (decode_query_string (Some token) (length token) query_flags, [])
      | Some epos \<Rightarrow>
          (decode_query_string (Some token) epos query_flags,
           decode_query_string (Some (drop (epos + 1) token)) (length token - epos - 1) query_flags))"

definition HTTP_URI_Parser_parse_query :: "boost \<Rightarrow> HTTP_URI \<Rightarrow> bool \<times> HTTP_URI" where
  "HTTP_URI_Parser_parse_query b uri =
     (True, foldl (\<lambda>uri token. uri\<lparr> query_params := query_params uri @ [parse_query_token token] \<rparr>)
              uri (tokenize b (raw_query uri) ''&'' None False))"

definition HTTP_URI_Parser_parse_i :: "boost \<Rightarrow> HTTP_URI \<Rightarrow> bool \<times> HTTP_URI" where
  "HTTP_URI_Parser_parse_i b uri =
     (if target uri = [] then (True, uri)
      else
        (let uri = (case find_char (CHR ''?'') (target uri) of
                      None \<Rightarrow> uri\<lparr> raw_path := target uri \<rparr>
                    | Some qpos \<Rightarrow> uri\<lparr> raw_path := take qpos (target uri),
                                       raw_query := drop (qpos + 1) (target uri) \<rparr>);
             (path_ok, uri) = (if raw_path uri \<noteq> [] then HTTP_URI_Parser_parse_path b uri
                               else (True, uri))
         in if \<not> path_ok then (False, uri)
            else
              (let (query_ok, uri) = (if raw_query uri \<noteq> [] then HTTP_URI_Parser_parse_query b uri
                                      else (True, uri))
               in if \<not> query_ok then (False, uri) else (True, uri))))"

definition HTTP_URI_Parser_parse :: "boost \<Rightarrow> string \<Rightarrow> HTTP_URI \<Rightarrow> bool \<times> HTTP_URI" where
  "HTTP_URI_Parser_parse b tgt uri =
     HTTP_URI_Parser_parse_i b ((HTTP_URI_clear uri)\<lparr> target := tgt \<rparr>)"

section \<open>Helper facts\<close>

lemma find_char_append: "c \<notin> set xs \<Longrightarrow> find_char c (xs @ c # ys) = Some (length xs)"
  by (induction xs) auto

lemma find_char_None: "find_char c xs = None \<longleftrightarrow> c \<notin> set xs"
  by (induction xs) auto

lemma fold_query_params:
  "foldl (\<lambda>uri token. uri\<lparr> query_params := query_params uri @ [f token] \<rparr>) uri ts
     = uri\<lparr> query_params := query_params uri @ map f ts \<rparr>"
  by (induction ts arbitrary: uri) auto

text \<open>The parser as one record expression.\<close>

definition split_target :: "string \<Rightarrow> string \<times> string" where
  "split_target tgt = (case find_char (CHR ''?'') tgt of
     None \<Rightarrow> (tgt, []) | Some qpos \<Rightarrow> (take qpos tgt, drop (qpos + 1) tgt))"

lemma parse_eq:
  assumes "boost_documented b"
  shows "HTTP_URI_Parser_parse b tgt uri =
    (True, uri\<lparr> target := tgt, raw_path := fst (split_target tgt),
       decoded_path := join_with ''/'' (map decode_segment (split_on (CHR ''/'') (fst (split_target tgt)))),
       raw_query := snd (split_target tgt),
       query_params := map parse_query_token (nonempty_fields (CHR ''&'') (snd (split_target tgt))) \<rparr>)"
proof -
  have "decode_segment [] = []" by (simp add: decode_segment_def decode_path_def decode_percent_def)
  then show ?thesis
    using assms
    by (cases "find_char (CHR ''?'') tgt")
       (auto simp: HTTP_URI_Parser_parse_def HTTP_URI_Parser_parse_i_def HTTP_URI_clear_def
        split_target_def HTTP_URI_Parser_parse_path_def HTTP_URI_Parser_parse_query_def
        fold_query_params boost_documented_def tokenize_def Let_def)
qed


section \<open>Printing a target\<close>

text \<open>The reference printer: every segment, key and value percent-encoded.\<close>

definition print_param :: "string \<times> string \<Rightarrow> string" where
  "print_param p = percent_encode unreserved (fst p) @ CHR ''='' # percent_encode unreserved (snd p)"

definition print_path :: "string list \<Rightarrow> string" where
  "print_path segs = join_with ''/'' (map (percent_encode unreserved) segs)"

definition print_target :: "string list \<Rightarrow> (string \<times> string) list \<Rightarrow> string" where
  "print_target segs params =
     print_path segs @
     (if params = [] then [] else CHR ''?'' # join_with ''&'' (map print_param params))"

lemma decode_segment_encode: "decode_segment (percent_encode unreserved s) = s"
  by (simp add: decode_segment_def decode_path_def decode_percent_encode unreserved_encoder_ok)

lemma decode_query_string_encode:
  "decode_query_string (Some (percent_encode unreserved s @ t)) (length (percent_encode unreserved s))
     query_flags = s"
  using decode_percent_encode [OF unreserved_encoder_ok(2), of s "[]"]
  by (auto simp: decode_query_string_def decode_query_def decode_percent_def split: if_splits)

lemma parse_query_token_print: "parse_query_token (print_param p) = p"
proof -
  let ?e = "percent_encode unreserved"
  have "find_char (CHR ''='') (print_param p) = Some (length (?e (fst p)))"
    unfolding print_param_def by (intro find_char_append reserved_not_in_encoded) simp
  then show ?thesis
    using decode_query_string_encode [of "fst p" "CHR ''='' # ?e (snd p)"]
      decode_query_string_encode [of "snd p" "[]"]
    by (simp add: parse_query_token_def print_param_def)
qed

lemma set_join_with: "c \<notin> set s \<Longrightarrow> \<forall>x \<in> set xs. c \<notin> set x \<Longrightarrow> c \<notin> set (join_with s xs)"
  by (induction s xs rule: join_with.induct) auto

lemma split_print_target:
  "split_target (print_target segs params)
     = (print_path segs, join_with ''&'' (map print_param params))"
proof -
  have q: "CHR ''?'' \<notin> set (print_path segs)"
    unfolding print_path_def by (intro set_join_with) (auto simp: reserved_not_in_encoded)
  show ?thesis
  proof (cases "params = []")
    case True
    with q show ?thesis
      by (simp add: split_target_def print_target_def find_char_None [THEN iffD2])
  next
    case False
    with find_char_append [OF q, of "join_with ''&'' (map print_param params)"] show ?thesis
      by (simp add: split_target_def print_target_def)
  qed
qed

lemma split_print_path: "segs \<noteq> [] \<Longrightarrow>
  split_on (CHR ''/'') (print_path segs) = map (percent_encode unreserved) segs"
  unfolding print_path_def by (intro split_on_join_with) (auto simp: reserved_not_in_encoded)

lemma fields_print_params:
  "nonempty_fields (CHR ''&'') (join_with ''&'' (map print_param params)) = map print_param params"
  by (intro fields_join_with) (auto simp: print_param_def reserved_not_in_encoded)

text \<open>An implementation of the Boost functions as they are documented.\<close>

definition ref_boost :: boost where
  "ref_boost = \<lparr> boost_split = (\<lambda>ds s. split_on (hd ds) s), boost_join = (\<lambda>xs s. join_with s xs),
     char_separator_tokens = (\<lambda>ds _ _ s. nonempty_fields (hd ds) s),
     starts_with = (\<lambda>s p. take (length p) s = p) \<rparr>"

lemma ref_boost_documented: "boost_documented ref_boost"
  by (simp add: boost_documented_def ref_boost_def)

text \<open>Cases of \<open>src/tests/http_uri_parser_test.cpp\<close>, evaluated on the model.\<close>

definition parsed :: "string \<Rightarrow> string \<times> (string \<times> string) list" where
  "parsed tgt =
     (let uri = snd (HTTP_URI_Parser_parse ref_boost tgt
            \<lparr> target = [], raw_path = [], decoded_path = [], raw_query = [], query_params = [] \<rparr>)
      in (decoded_path uri, query_params uri))"

lemma uri_parser_tests:
  "parsed ''/submit?name='' = (''/submit'', [(''name'', [])])"
  "parsed ''/flag?debug'' = (''/flag'', [(''debug'', [])])"
  "parsed ''/check?param1=1%262&param2=a%2Fb'' = (''/check'', [(''param1'', ''1&2''), (''param2'', ''a/b'')])"
  "parsed ''/folder/'' = (''/folder/'', [])"
  "parsed [] = ([], [])"
  "parsed ''?only=param'' = ([], [(''only'', ''param'')])"
  "parsed ''/complex?data=a=b=c'' = (''/complex'', [(''data'', ''a=b=c'')])"
  "parsed ''/encoded%2Fslash?q=value'' = (''/encoded/slash'', [(''q'', ''value'')])"
  "parsed ''/weird?=value'' = (''/weird'', [([], ''value'')])"
  "parsed ''/nothing?'' = (''/nothing'', [])"
  by code_simp+

section \<open>Properties\<close>



text \<open>
  The parser never rejects a target, well-formed or not, whatever Boost returns: the raw path
  and the raw query are the parts before and after the first question mark.
\<close>

lemma uri_parse_never_fails:
  "\<exists>uri. HTTP_URI_Parser_parse b tgt old = (True, uri) \<and> target uri = tgt \<and>
     tgt = raw_path uri @ (if CHR ''?'' \<in> set tgt then CHR ''?'' # raw_query uri else []) \<and>
     CHR ''?'' \<notin> set (raw_path uri)"
proof (cases "CHR ''?'' \<in> set tgt")
  case False
  then show ?thesis
    by (simp add: HTTP_URI_Parser_parse_def HTTP_URI_Parser_parse_i_def Let_def
        HTTP_URI_clear_def HTTP_URI_Parser_parse_path_def find_char_None [THEN iffD2])
next
  case True
  then obtain p q where "tgt = p @ CHR ''?'' # q" "CHR ''?'' \<notin> set p"
    by (meson split_list_first)
  then show ?thesis
    by (simp add: HTTP_URI_Parser_parse_def HTTP_URI_Parser_parse_i_def Let_def HTTP_URI_clear_def
        HTTP_URI_Parser_parse_path_def HTTP_URI_Parser_parse_query_def fold_query_params
        find_char_append)
qed

end
