(* ===== verification/Http_Handler.thy ===== *)
theory Http_Handler
  imports Http_Uri
begin

text \<open>
  Responses, handlers and their factory: the response helpers of \<open>src/httpd/http_helper.h\<close> and
  \<open>src/httpd/http_helper.cpp\<close>, \<open>src/httpd/http_handler.cpp\<close>,
  \<open>src/httpd/http_handler_factory.cpp\<close> and \<open>src/httpd/http_echo_handler.cpp\<close>. Requests and
  responses are values of Boost.Beast: types \<open>'req\<close> and \<open>'resp\<close> with the operations of the
  record \<open>http_env\<close>; \<open>beast_documented\<close> says what is used of them.
\<close>

section \<open>Requests and responses\<close>

datatype verb = verb_get | verb_post | verb_put | verb_delete | verb_other string

record ('req, 'resp) http_env =
  boost_fns :: boost
  project_name :: string
  empty_request :: 'req
  req_method :: "'req \<Rightarrow> verb"
  req_method_string :: "'req \<Rightarrow> string"
  req_target :: "'req \<Rightarrow> string"
  req_keep_alive :: "'req \<Rightarrow> bool"
  req_fields :: "'req \<Rightarrow> (string \<times> string) list"
  req_body :: "'req \<Rightarrow> string"
  string_response :: "nat \<Rightarrow> nat \<Rightarrow> 'resp"
  set_version :: "nat \<Rightarrow> 'resp \<Rightarrow> 'resp"
  set_keep_alive :: "bool \<Rightarrow> 'resp \<Rightarrow> 'resp"
  set_field :: "string \<Rightarrow> string \<Rightarrow> 'resp \<Rightarrow> 'resp"
  set_body :: "string \<Rightarrow> 'resp \<Rightarrow> 'resp"
  prepare_payload :: "'resp \<Rightarrow> 'resp"
  resp_status :: "'resp \<Rightarrow> nat"
  resp_keep_alive :: "'resp \<Rightarrow> bool"
  resp_body :: "'resp \<Rightarrow> string"

text \<open>
  What the documentation of Beast says of a message: the constructor sets the status, the setters
  set what they name and leave the status, the keep-alive setting (other than \<open>version\<close>, and a
  field other than \<open>Connection\<close>) and the body alone.
\<close>

definition beast_documented :: "('req, 'resp) http_env \<Rightarrow> bool" where
  "beast_documented E \<longleftrightarrow>
     (\<forall>st v. resp_status E (string_response E st v) = st) \<and>
     (\<forall>v r. resp_status E (set_version E v r) = resp_status E r) \<and>
     (\<forall>k r. resp_status E (set_keep_alive E k r) = resp_status E r \<and>
            resp_keep_alive E (set_keep_alive E k r) = k) \<and>
     (\<forall>n x r. resp_status E (set_field E n x r) = resp_status E r \<and>
              (n \<noteq> ''Connection'' \<longrightarrow> resp_keep_alive E (set_field E n x r) = resp_keep_alive E r)) \<and>
     (\<forall>b r. resp_status E (set_body E b r) = resp_status E r \<and>
            resp_keep_alive E (set_body E b r) = resp_keep_alive E r \<and>
            resp_body E (set_body E b r) = b) \<and>
     (\<forall>r. resp_status E (prepare_payload E r) = resp_status E r \<and>
          resp_keep_alive E (prepare_payload E r) = resp_keep_alive E r \<and>
          resp_body E (prepare_payload E r) = resp_body E r)"

section \<open>Response helpers\<close>

definition hlpr_clear :: "('req, 'resp) http_env \<Rightarrow> 'req \<Rightarrow> 'req" where
  "hlpr_clear E req = empty_request E"

definition init_response :: "('req, 'resp) http_env \<Rightarrow> bool \<Rightarrow> 'resp \<Rightarrow> 'resp" where
  "init_response E keep_alive res =
     set_field E ''Server'' (project_name E) (set_keep_alive E keep_alive (set_version E 11 res))"

definition stock_response :: "('req, 'resp) http_env \<Rightarrow> nat \<Rightarrow> bool \<Rightarrow> string \<Rightarrow> 'resp" where
  "stock_response E status keep_alive body =
     (let res = string_response E status 11;
          res = init_response E keep_alive res;
          res = set_field E ''Content-Type'' ''text/plain; charset=utf-8'' res;
          res = set_body E body res
      in prepare_payload E res)"

definition bad_request :: "('req, 'resp) http_env \<Rightarrow> bool \<Rightarrow> string \<Rightarrow> 'resp" where
  "bad_request E keep_alive body =
     stock_response E 400 keep_alive (if body = [] then ''Bad Request'' else body)"

definition not_found :: "('req, 'resp) http_env \<Rightarrow> bool \<Rightarrow> string \<Rightarrow> 'resp" where
  "not_found E keep_alive body =
     stock_response E 404 keep_alive (if body = [] then ''Not Found'' else body)"

definition not_implemented :: "('req, 'resp) http_env \<Rightarrow> bool \<Rightarrow> string \<Rightarrow> 'resp" where
  "not_implemented E keep_alive body =
     stock_response E 501 keep_alive (if body = [] then ''Not Implemented'' else body)"

definition internal_server_error :: "('req, 'resp) http_env \<Rightarrow> bool \<Rightarrow> string \<Rightarrow> 'resp" where
  "internal_server_error E keep_alive body =
     stock_response E 500 keep_alive (if body = [] then ''Internal Server Error'' else body)"

lemma stock_response_fields [op_simps]:
  assumes "beast_documented E"
  shows "resp_status E (stock_response E st k b) = st"
    and "resp_keep_alive E (stock_response E st k b) = k"
    and "resp_body E (stock_response E st k b) = b"
  using assms by (simp_all add: beast_documented_def stock_response_def init_response_def Let_def)

section \<open>Handlers\<close>

text \<open>The virtual functions of a handler object.\<close>

record ('req, 'resp) HTTP_Handler =
  handle_get_i :: "'req \<Rightarrow> 'resp"
  handle_post_i :: "'req \<Rightarrow> 'resp"
  handle_put_i :: "'req \<Rightarrow> 'resp"
  handle_delete_i :: "'req \<Rightarrow> 'resp"

text \<open>The implementations in the base class.\<close>

definition HTTP_Handler_base :: "('req, 'resp) http_env \<Rightarrow> ('req, 'resp) HTTP_Handler" where
  "HTTP_Handler_base E =
     \<lparr> handle_get_i = (\<lambda>req. not_implemented E (req_keep_alive E req) []),
       handle_post_i = (\<lambda>req. not_implemented E (req_keep_alive E req) []),
       handle_put_i = (\<lambda>req. not_implemented E (req_keep_alive E req) []),
       handle_delete_i = (\<lambda>req. not_implemented E (req_keep_alive E req) []) \<rparr>"

definition handle_get :: "('req, 'resp) HTTP_Handler \<Rightarrow> 'req \<Rightarrow> 'resp" where
  "handle_get h req = handle_get_i h req"

definition handle_post :: "('req, 'resp) HTTP_Handler \<Rightarrow> 'req \<Rightarrow> 'resp" where
  "handle_post h req = handle_post_i h req"

definition handle_put :: "('req, 'resp) HTTP_Handler \<Rightarrow> 'req \<Rightarrow> 'resp" where
  "handle_put h req = handle_put_i h req"

definition handle_delete :: "('req, 'resp) HTTP_Handler \<Rightarrow> 'req \<Rightarrow> 'resp" where
  "handle_delete h req = handle_delete_i h req"

definition HTTP_Handler_handle_request ::
  "('req, 'resp) http_env \<Rightarrow> ('req, 'resp) HTTP_Handler \<Rightarrow> 'req \<Rightarrow> 'resp" where
  "HTTP_Handler_handle_request E h req =
     (case req_method E req of
        verb_get \<Rightarrow> handle_get h req
      | verb_post \<Rightarrow> handle_post h req
      | verb_put \<Rightarrow> handle_put h req
      | verb_delete \<Rightarrow> handle_delete h req
      | verb_other _ \<Rightarrow> not_implemented E (req_keep_alive E req) [])"

section \<open>The factory\<close>

type_synonym ('req, 'resp) HTTP_Handler_Creator = "unit \<Rightarrow> ('req, 'resp) HTTP_Handler option"

record ('req, 'resp) HTTP_Handler_Factory =
  creators :: "string \<rightharpoonup> ('req, 'resp) HTTP_Handler_Creator"

definition Factory_new :: "('req, 'resp) HTTP_Handler_Factory" where
  "Factory_new = \<lparr> creators = Map.empty \<rparr>"

definition Factory_register_handler ::
  "string \<Rightarrow> ('req, 'resp) HTTP_Handler_Creator \<Rightarrow> ('req, 'resp) HTTP_Handler_Factory \<Rightarrow>
     ('req, 'resp) HTTP_Handler_Factory" where
  "Factory_register_handler name fn f = f\<lparr> creators := (creators f)(name \<mapsto> fn) \<rparr>"

definition Factory_unregister_handler ::
  "string \<Rightarrow> ('req, 'resp) HTTP_Handler_Factory \<Rightarrow> ('req, 'resp) HTTP_Handler_Factory" where
  "Factory_unregister_handler name f =
     (case creators f name of
        None \<Rightarrow> f
      | Some _ \<Rightarrow> f\<lparr> creators := (creators f)(name := None) \<rparr>)"

definition Factory_contains :: "string \<Rightarrow> ('req, 'resp) HTTP_Handler_Factory \<Rightarrow> bool" where
  "Factory_contains name f \<longleftrightarrow> creators f name \<noteq> None"

definition Factory_create ::
  "string \<Rightarrow> ('req, 'resp) HTTP_Handler_Factory \<Rightarrow> ('req, 'resp) HTTP_Handler option" where
  "Factory_create name f =
     (case creators f name of None \<Rightarrow> None | Some c \<Rightarrow> c ())"

text \<open>What the router and the initializer rely on.\<close>

locale handler_registry =
  fixes reg :: "string \<Rightarrow> (unit \<Rightarrow> 'h option) \<Rightarrow> 's \<Rightarrow> 's"
    and unreg :: "string \<Rightarrow> 's \<Rightarrow> 's"
    and has :: "string \<Rightarrow> 's \<Rightarrow> bool"
    and make :: "string \<Rightarrow> 's \<Rightarrow> 'h option"
  assumes make_reg: "make n (reg m c s) = (if n = m then c () else make n s)"
    and has_reg: "has n (reg m c s) \<longleftrightarrow> n = m \<or> has n s"
    and make_unreg: "make n (unreg m s) = (if n = m then None else make n s)"
    and has_unreg: "has n (unreg m s) \<longleftrightarrow> n \<noteq> m \<and> has n s"
    and make_absent: "\<not> has n s \<Longrightarrow> make n s = None"
begin

lemma reg_shadows: "make n (reg m c (reg m d s)) = make n (reg m c s)"
  by (simp add: make_reg)

lemma unreg_reg: "make n (unreg m (reg m c s)) = make n (unreg m s)"
  by (simp add: make_reg make_unreg)

lemma made_was_registered: "make n s = Some h \<Longrightarrow> has n s"
  using make_absent by fastforce

end

interpretation factory: handler_registry
  "Factory_register_handler :: string \<Rightarrow> ('req, 'resp) HTTP_Handler_Creator \<Rightarrow> _ \<Rightarrow> _"
  Factory_unregister_handler Factory_contains Factory_create
  by unfold_locales
     (auto simp: Factory_register_handler_def Factory_unregister_handler_def Factory_contains_def
       Factory_create_def split: option.splits)

section \<open>The echo handler\<close>

text \<open>A default-constructed \<open>HTTP_URI\<close>.\<close>

definition fresh_URI :: HTTP_URI where
  "fresh_URI = \<lparr> target = [], raw_path = [], decoded_path = [], raw_query = [], query_params = [] \<rparr>"

definition make_echo_response :: "('req, 'resp) http_env \<Rightarrow> 'req \<Rightarrow> 'resp" where
  "make_echo_response E req =
     (let uri = snd (HTTP_URI_Parser_parse (boost_fns E) (req_target E req) fresh_URI);
          nl = [CHR 0x0A];
          oss = ''[inks]'' @ '' Parsed HTTP request:'' @ nl
              @ ''[inks]'' @ ''   Method: '' @ req_method_string E req @ nl
              @ ''[inks]'' @ ''   Target: '' @ req_target E req @ nl
              @ ''[inks]'' @ ''   Path: '' @ decoded_path uri @ nl;
          oss = (if raw_query uri \<noteq> [] then oss @ ''[inks]'' @ ''   Query: '' @ raw_query uri @ nl
                 else oss);
          oss = (if query_params uri \<noteq> [] then
                   oss @ ''[inks]'' @ ''   Query params:'' @ nl
                   @ concat (map (\<lambda>(key, value). ''[inks]'' @ ''     '' @ key @ '' = '' @ value @ nl)
                       (query_params uri))
                 else oss);
          oss = oss @ ''[inks]'' @ ''   Headers:'' @ nl
              @ concat (map (\<lambda>(name, value). ''[inks]'' @ ''     '' @ name @ '': '' @ value @ nl)
                  (req_fields E req));
          oss = oss @ ''[inks]'' @ ''   Body:'' @ nl @ req_body E req @ nl;
          oss = oss @ ''[inks]'' @ '' End.'';
          res = string_response E 200 11;
          res = init_response E (req_keep_alive E req) res;
          res = set_field E ''Content-Type'' ''text/plain; charset=utf-8'' res;
          res = set_body E oss res
      in prepare_payload E res)"

definition HTTP_Echo_Handler_echo :: "('req, 'resp) http_env \<Rightarrow> 'req \<Rightarrow> 'resp" where
  "HTTP_Echo_Handler_echo E req = make_echo_response E req"

definition HTTP_Echo_Handler :: "('req, 'resp) http_env \<Rightarrow> ('req, 'resp) HTTP_Handler" where
  "HTTP_Echo_Handler E =
     \<lparr> handle_get_i = HTTP_Echo_Handler_echo E, handle_post_i = HTTP_Echo_Handler_echo E,
       handle_put_i = HTTP_Echo_Handler_echo E, handle_delete_i = HTTP_Echo_Handler_echo E \<rparr>"

text \<open>The factory when \<open>main\<close> starts: the static object of the macro has registered the handler.\<close>

definition register_HTTP_Echo_Handler ::
  "('req, 'resp) http_env \<Rightarrow> ('req, 'resp) HTTP_Handler_Factory \<Rightarrow> ('req, 'resp) HTTP_Handler_Factory" where
  "register_HTTP_Echo_Handler E f =
     Factory_register_handler ''HTTP_Echo_Handler'' (\<lambda>_. Some (HTTP_Echo_Handler E)) f"

definition Factory_at_start :: "('req, 'resp) http_env \<Rightarrow> ('req, 'resp) HTTP_Handler_Factory" where
  "Factory_at_start E = register_HTTP_Echo_Handler E Factory_new"

section \<open>What a handler answers\<close>

lemma echo_fields:
  assumes "beast_documented E"
  shows "resp_status E (HTTP_Echo_Handler_echo E req) = 200"
    and "resp_keep_alive E (HTTP_Echo_Handler_echo E req) = req_keep_alive E req"
    and "\<exists>pre. resp_body E (HTTP_Echo_Handler_echo E req) =
      pre @ ''[inks]   Body:'' @ [CHR 0x0A] @ req_body E req @ [CHR 0x0A] @ ''[inks] End.''"
  using assms
  by (auto simp: beast_documented_def HTTP_Echo_Handler_echo_def make_echo_response_def
      init_response_def Let_def)

lemma base_answers_501:
  "beast_documented E \<Longrightarrow>
   resp_status E (HTTP_Handler_handle_request E (HTTP_Handler_base E) req) = 501"
  by (simp add: HTTP_Handler_handle_request_def HTTP_Handler_base_def handle_get_def handle_post_def
      handle_put_def handle_delete_def not_implemented_def op_simps split: verb.splits)

lemma echo_answers:
  assumes "beast_documented E"
  shows "resp_status E (HTTP_Handler_handle_request E (HTTP_Echo_Handler E) req) =
      (case req_method E req of verb_other _ \<Rightarrow> 501 | _ \<Rightarrow> 200)"
    and "resp_keep_alive E (HTTP_Handler_handle_request E (HTTP_Echo_Handler E) req) =
      req_keep_alive E req"
  using assms
  by (simp_all add: HTTP_Handler_handle_request_def HTTP_Echo_Handler_def handle_get_def
      handle_post_def handle_put_def handle_delete_def not_implemented_def op_simps echo_fields
      split: verb.splits)

end
