(* ===== verification/Http_Router.thy ===== *)
theory Http_Router
  imports Http_Handler
begin

text \<open>
  \<open>src/httpd/http_router.cpp\<close>: the routing table and the search for the handler of a path. The
  search walks from the whole path to shorter and shorter prefixes that end before a slash; it is
  shown to find the longest registered route that is a prefix of the path by whole segments.
\<close>

section \<open>The code\<close>

record HTTP_Router =
  routes :: "string \<rightharpoonup> string"

definition Router_add :: "string \<Rightarrow> string \<Rightarrow> HTTP_Router \<Rightarrow> HTTP_Router" where
  "Router_add path name r = r\<lparr> routes := (routes r)(path \<mapsto> name) \<rparr>"

text \<open>\<open>std::string::rfind(c, pos)\<close> for a position inside the string; \<open>None\<close> is \<open>npos\<close>.\<close>

fun rfind :: "string \<Rightarrow> char \<Rightarrow> nat \<Rightarrow> nat option" where
  "rfind s c 0 = (if s \<noteq> [] \<and> s ! 0 = c then Some 0 else None)"
| "rfind s c (Suc n) = (if Suc n < length s \<and> s ! Suc n = c then Some (Suc n) else rfind s c n)"

lemma rfind_Some:
  "rfind s c n = Some j \<Longrightarrow> j \<le> n \<and> j < length s \<and> s ! j = c \<and> (\<forall>i. j < i \<and> i \<le> n \<and> i < length s \<longrightarrow> s ! i \<noteq> c)"
  by (induction n) (auto simp: le_Suc_eq split: if_splits)

lemma rfind_None: "rfind s c n = None \<Longrightarrow> i \<le> n \<Longrightarrow> i < length s \<Longrightarrow> s ! i \<noteq> c"
  by (induction n) (auto simp: le_Suc_eq split: if_splits)

text \<open>
  The loop; \<open>len\<close> is never zero: it starts at the length of a path that begins with a slash and
  becomes one or the position of a later slash.
\<close>

function find_route :: "(string \<rightharpoonup> string) \<Rightarrow> string \<Rightarrow> nat \<Rightarrow> string" where
  "find_route rts path len =
     (let key = take len path in
      case rts key of
        Some name \<Rightarrow> name
      | None \<Rightarrow>
          (if len = 1 then []
           else
             (case rfind path (CHR ''/'') (len - 1) of
                None \<Rightarrow> []
              | Some last_slash \<Rightarrow>
                  (if last_slash = 0 then find_route rts path 1
                   else find_route rts path last_slash))))"
  by auto
termination
  by (relation "measure (\<lambda>(rts, path, len). if len = 0 then 2 else len)")
     (auto dest: rfind_Some)

declare find_route.simps [simp del]

definition Router_find_handler ::
  "('req, 'resp) http_env \<Rightarrow> ('req, 'resp) HTTP_Handler_Factory \<Rightarrow> HTTP_Router \<Rightarrow> string \<Rightarrow>
     ('req, 'resp) HTTP_Handler option" where
  "Router_find_handler E f r path =
     (if path = [] \<or> \<not> starts_with (boost_fns E) path ''/'' then None
      else Factory_create (find_route (routes r) path (length path)) f)"

definition Router_dispatch ::
  "('req, 'resp) http_env \<Rightarrow> ('req, 'resp) HTTP_Handler_Factory \<Rightarrow> HTTP_Router \<Rightarrow> 'req \<Rightarrow> 'resp" where
  "Router_dispatch E f r req =
     (let (ok, uri) = HTTP_URI_Parser_parse (boost_fns E) (req_target E req) fresh_URI in
      if \<not> ok then bad_request E (req_keep_alive E req) []
      else
        (case Router_find_handler E f r (decoded_path uri) of
           None \<Rightarrow> internal_server_error E (req_keep_alive E req) []
         | Some handler \<Rightarrow> HTTP_Handler_handle_request E handler req))"

section \<open>Routes that cover a path\<close>

text \<open>
  A route covers a path when it is the path, or the path continues after it with a slash, or it
  is the root.
\<close>

definition covers :: "string \<Rightarrow> string \<Rightarrow> bool" where
  "covers path p \<longleftrightarrow>
     p = path \<or> (p \<noteq> [] \<and> (\<exists>rest. path = p @ CHR ''/'' # rest)) \<or> (p = ''/'' \<and> take 1 path = ''/'')"

text \<open>The longest covering route of a table.\<close>

definition longest_route :: "(string \<rightharpoonup> string) \<Rightarrow> string \<Rightarrow> string \<Rightarrow> bool" where
  "longest_route rts path p \<longleftrightarrow>
     covers path p \<and> rts p \<noteq> None \<and> (\<forall>q. covers path q \<and> rts q \<noteq> None \<longrightarrow> length q \<le> length p)"

lemma covers_take: "covers path p \<Longrightarrow> p = take (length p) path \<and> length p \<le> length path"
  by (auto simp: covers_def) (metis length_take min.absorb_iff2 nat_le_linear list.size(3) One_nat_def length_Cons)+

lemma covers_slash:
  assumes "covers path p" "length p < length path" "p \<noteq> ''/''"
  shows "path ! length p = CHR ''/''" "p \<noteq> []"
  using assms by (auto simp: covers_def)

lemma covers_at_slash:
  assumes "0 < j" "j < length path" "path ! j = CHR ''/''"
  shows "covers path (take j path)"
  using assms id_take_nth_drop [of j path] by (auto simp: covers_def)

text \<open>
  One round of the search. The key of length \<open>len\<close> is not registered and longer than one: the next
  key \<open>k\<close> ends before the last slash (or is the root), covers the path, and no covering route lies
  between the two.
\<close>

lemma next_key:
  assumes path: "take 1 path = ''/''" and len: "1 < len" "len \<le> length path"
    and shorter: "\<And>q. covers path q \<Longrightarrow> rts q \<noteq> None \<Longrightarrow> length q < len"
  obtains j k where "rfind path (CHR ''/'') (len - 1) = Some j" "k = (if j = 0 then 1 else j)"
    "1 \<le> k" "k \<le> length path" "covers path (take k path)"
    "\<And>q. covers path q \<Longrightarrow> rts q \<noteq> None \<Longrightarrow> length q \<le> k"
proof -
  have zero: "path ! 0 = CHR ''/''" "path \<noteq> []" using path by (cases path; simp)+
  then obtain j where j: "rfind path (CHR ''/'') (len - 1) = Some j"
    using rfind_None [of path "CHR ''/''" "len - 1" 0] by fastforce
  from rfind_Some [OF this] len have jl: "j < len" "path ! j = CHR ''/''"
    "\<And>i. j < i \<Longrightarrow> i < len \<Longrightarrow> path ! i \<noteq> CHR ''/''" by auto
  define k where "k = (if j = 0 then 1 else j)"
  have root: "covers path (take 1 path)" using path by (simp add: covers_def)
  have k: "1 \<le> k" "k \<le> length path" "covers path (take k path)"
    using jl len zero root covers_at_slash [of j path] by (auto simp: k_def Suc_le_eq)
  have "length q \<le> k" if q: "covers path q" "rts q \<noteq> None" for q
  proof (cases "q = ''/''")
    case False
    from shorter [OF q] len have lt: "length q < length path" by simp
    from covers_slash [OF q(1) lt False] jl(3) [of "length q"] shorter [OF q] show ?thesis
      by (fastforce simp: k_def)
  qed (use k in simp)
  with j k show thesis by (intro that [of j k]) (simp_all add: k_def)
qed

text \<open>
  The loop invariant: no covering route longer than \<open>len\<close> is registered, and the prefix of length
  \<open>len\<close> covers the path.
\<close>

lemma find_route_longest:
  assumes "take 1 path = ''/''" "1 \<le> len" "covers path (take len path)" "len \<le> length path"
    and "\<forall>q. covers path q \<and> rts q \<noteq> None \<longrightarrow> length q \<le> len"
  shows "(\<exists>p. longest_route rts path p \<and> rts p = Some (find_route rts path len)) \<or>
     (\<forall>p. covers path p \<longrightarrow> rts p = None) \<and> find_route rts path len = []"
  using assms
proof (induction rts path len rule: find_route.induct)
  case (1 rts path len)
  let ?key = "take len path"
  show ?case
  proof (cases "rts ?key")
    case (Some name)
    then have "longest_route rts path ?key" using 1(5-7) by (auto simp: longest_route_def min_def)
    with Some show ?thesis by (auto simp: find_route.simps [of rts path len])
  next
    case None
    have shorter: "length q < len" if "covers path q" "rts q \<noteq> None" for q
      using 1(7) that covers_take [OF that(1)] None by (metis le_neq_implies_less)
    show ?thesis
    proof (cases "len = 1")
      case True
      have "rts q = None" if "covers path q" for q
      proof (rule ccontr)
        assume "rts q \<noteq> None"
        with shorter [OF that] True have "q = []" by simp
        with that 1(3) show False by (auto simp: covers_def)
      qed
      moreover have "find_route rts path len = []"
        using True None by (subst find_route.simps) simp
      ultimately show ?thesis by blast
    next
      case False
      with 1(4) have len: "1 < len" by simp
      obtain j k where
        j: "rfind path (CHR ''/'') (len - 1) = Some j" and k: "k = (if j = 0 then 1 else j)"
        "1 \<le> k" "k \<le> length path" "covers path (take k path)"
        "\<And>q. covers path q \<Longrightarrow> rts q \<noteq> None \<Longrightarrow> length q \<le> k"
        by (rule next_key [OF 1(3) len 1(6) shorter]) blast+
      have step: "find_route rts path len = find_route rts path k"
        using None False j by (simp add: find_route.simps [of rts path len] k(1))
      show ?thesis
        using 1(1) [OF refl None False j] 1(2) [OF refl None False j] 1(3) k
        by (cases "j = 0") (simp_all add: step)
    qed
  qed
qed

lemma find_route_whole:
  assumes "take 1 path = ''/''"
  shows "(\<exists>p. longest_route rts path p \<and> rts p = Some (find_route rts path (length path))) \<or>
     (\<forall>p. covers path p \<longrightarrow> rts p = None) \<and> find_route rts path (length path) = []"
proof (rule find_route_longest [OF assms])
  show "1 \<le> length path" using assms by (cases path) auto
  show "\<forall>q. covers path q \<and> rts q \<noteq> None \<longrightarrow> length q \<le> length path"
    using covers_take by blast
qed (simp_all add: covers_def)

lemma longest_route_unique:
  "longest_route rts path p \<Longrightarrow> longest_route rts path q \<Longrightarrow> p = q"
  unfolding longest_route_def by (metis covers_take le_antisym)

lemma dispatch_eq:
  "Router_dispatch E f r req =
     (case Router_find_handler E f r
             (decoded_path (snd (HTTP_URI_Parser_parse (boost_fns E) (req_target E req) fresh_URI))) of
        None \<Rightarrow> internal_server_error E (req_keep_alive E req) []
      | Some handler \<Rightarrow> HTTP_Handler_handle_request E handler req)"
proof -
  have "fst (HTTP_URI_Parser_parse (boost_fns E) (req_target E req) fresh_URI)"
    by (auto simp: HTTP_URI_Parser_parse_def HTTP_URI_Parser_parse_i_def Let_def split_def
        HTTP_URI_Parser_parse_path_def HTTP_URI_Parser_parse_query_def)
  then show ?thesis by (simp add: Router_dispatch_def split_def Let_def)
qed

text \<open>The table and the cases of \<open>src/tests/http_router_matching_test.cpp\<close>.\<close>

definition test_routes :: "string \<rightharpoonup> string" where
  "test_routes = [''/t'' \<mapsto> ''base'', ''/t/api'' \<mapsto> ''api'', ''/t/api/v1'' \<mapsto> ''v1'',
     ''/t/api/v1/users'' \<mapsto> ''users'']"

lemma router_tests:
  "find_route test_routes ''/t/api/v1'' 9 = ''v1''"
  "find_route test_routes ''/t/api/v1/users/42/profile'' 26 = ''users''"
  "find_route test_routes ''/t/api/v1/projects/example'' 26 = ''v1''"
  "find_route test_routes ''/t/apiary'' 9 = ''base''"
  "find_route test_routes ''/other'' 6 = []"
  by code_simp+

section \<open>A concrete message type\<close>

text \<open>Requests and responses as plain records, satisfying the documented laws.\<close>

record ref_request =
  rq_method :: verb
  rq_target :: string
  rq_keep :: bool
  rq_body :: string

record ref_response =
  rs_status :: nat
  rs_keep :: bool
  rs_headers :: "(string \<times> string) list"
  rs_body :: string

definition ref_env :: "(ref_request, ref_response) http_env" where
  "ref_env =
     \<lparr> boost_fns = ref_boost, project_name = ''inks'',
       empty_request = \<lparr> rq_method = verb_get, rq_target = [], rq_keep = False, rq_body = [] \<rparr>,
       req_method = rq_method, req_method_string = (\<lambda>_. ''GET''), req_target = rq_target,
       req_keep_alive = rq_keep, req_fields = (\<lambda>_. []), req_body = rq_body,
       string_response = (\<lambda>st v. \<lparr> rs_status = st, rs_keep = False, rs_headers = [], rs_body = [] \<rparr>),
       set_version = (\<lambda>v r. r), set_keep_alive = (\<lambda>k r. r\<lparr> rs_keep := k \<rparr>),
       set_field = (\<lambda>n x r. r\<lparr> rs_headers := rs_headers r @ [(n, x)] \<rparr>),
       set_body = (\<lambda>b r. r\<lparr> rs_body := b \<rparr>), prepare_payload = (\<lambda>r. r),
       resp_status = rs_status, resp_keep_alive = rs_keep, resp_body = rs_body \<rparr>"

lemma ref_env_documented: "beast_documented ref_env" "boost_documented (boost_fns ref_env)"
  by (simp_all add: beast_documented_def ref_env_def ref_boost_documented)

definition ref_get :: "string \<Rightarrow> ref_request" where
  "ref_get tgt = \<lparr> rq_method = verb_get, rq_target = tgt, rq_keep = True, rq_body = ''hi'' \<rparr>"

section \<open>Properties\<close>

text \<open>
  The handler of a path is that of the longest registered route that covers it by whole
  segments: \<open>/api\<close> covers \<open>/api/v1\<close> but not \<open>/apiv1\<close>, and \<open>/\<close> covers every path. There is at most
  one such route. When no route covers the path the factory is asked for the empty name. The
  search ends for every table and path.
\<close>

lemma router_longest_route:
  assumes "boost_documented (boost_fns E)" "take 1 path = ''/''"
  shows "(if \<exists>p. covers path p \<and> routes r p \<noteq> None then
            (\<exists>p n. longest_route (routes r) path p \<and> routes r p = Some n \<and>
               Router_find_handler E f r path = Factory_create n f)
          else Router_find_handler E f r path = Factory_create [] f)"
proof -
  have "Router_find_handler E f r path = Factory_create (find_route (routes r) path (length path)) f"
    using assms by (auto simp: Router_find_handler_def boost_documented_def)
  with find_route_whole [OF assms(2), of "routes r"] show ?thesis
    by (auto simp: longest_route_def)
qed



end
