(* ===== verification/Http_Session.thy ===== *)
theory Http_Session
  imports Http_Router
begin

text \<open>
  \<open>src/httpd/http_session.cpp\<close>: one connection. Every member function is a function on the
  session; the asynchronous operations it starts are its output, and their completions are the
  events of a step relation. \<open>stream_.socket().remote_endpoint()\<close> throws when the peer is no
  longer connected: the answer of the socket is the argument \<open>peer\<close>, \<open>None\<close> for the exception. A
  parser that has read a request holds it until it is released.
\<close>

section \<open>The code\<close>

record 'req HTTP_Session =
  stream_open :: bool
  parser :: "'req option"

datatype 'resp io_action =
    Async_Read nat
  | Async_Write nat 'resp bool
  | Stream_Close

datatype session_error = Not_Connected | No_Request

type_synonym endpoint = "string \<times> nat"

definition RECEIVE_REQUEST_TIMEOUT :: nat where "RECEIVE_REQUEST_TIMEOUT = 30"
definition SEND_RESPONSE_TIMEOUT :: nat where "SEND_RESPONSE_TIMEOUT = 30"

definition Session_reset_parser :: "'req HTTP_Session \<Rightarrow> 'req HTTP_Session" where
  "Session_reset_parser s = s\<lparr> parser := None \<rparr>"

definition Session_new :: "'req HTTP_Session" where
  "Session_new = Session_reset_parser \<lparr> stream_open = True, parser = None \<rparr>"

definition Session_handle_request_reading :: "'req HTTP_Session \<Rightarrow> 'req HTTP_Session \<times> 'resp io_action list" where
  "Session_handle_request_reading s = (s, [Async_Read RECEIVE_REQUEST_TIMEOUT])"

definition Session_run :: "'req HTTP_Session \<Rightarrow> 'req HTTP_Session \<times> 'resp io_action list" where
  "Session_run s = Session_handle_request_reading s"

definition Session_close ::
  "endpoint option \<Rightarrow> 'req HTTP_Session \<Rightarrow> session_error + 'req HTTP_Session \<times> 'resp io_action list" where
  "Session_close peer s =
     (case peer of
        None \<Rightarrow> Inl Not_Connected
      | Some ep \<Rightarrow> Inr (s\<lparr> stream_open := False \<rparr>, [Stream_Close]))"

definition Session_handle_request ::
  "('req, 'resp) http_env \<Rightarrow> ('req, 'resp) HTTP_Handler_Factory \<Rightarrow> HTTP_Router \<Rightarrow>
     'req HTTP_Session \<Rightarrow> session_error + bool \<times> 'req HTTP_Session \<times> 'resp io_action list" where
  "Session_handle_request E f r s =
     (case parser s of
        None \<Rightarrow> Inl No_Request
      | Some req \<Rightarrow>
          (let s = s\<lparr> parser := None \<rparr>;
               res = Router_dispatch E f r req;
               keep_alive = resp_keep_alive E res
           in Inr (True, s, [Async_Write SEND_RESPONSE_TIMEOUT res keep_alive])))"

definition Session_handle_request_received ::
  "('req, 'resp) http_env \<Rightarrow> ('req, 'resp) HTTP_Handler_Factory \<Rightarrow> HTTP_Router \<Rightarrow> endpoint option \<Rightarrow>
     string option \<Rightarrow> 'req HTTP_Session \<Rightarrow> session_error + 'req HTTP_Session \<times> 'resp io_action list" where
  "Session_handle_request_received E f r peer ec s =
     (case ec of
        Some e \<Rightarrow> Session_close peer s
      | None \<Rightarrow>
          (case peer of
             None \<Rightarrow> Inl Not_Connected
           | Some ep \<Rightarrow>
               and_then (Session_handle_request E f r s) (\<lambda>(ok, s, acts).
                 if \<not> ok then and_then (Session_close peer s) (\<lambda>(s, acts'). Inr (s, acts @ acts'))
                 else Inr (s, acts))))"

definition Session_handle_writing_finished ::
  "endpoint option \<Rightarrow> string option \<Rightarrow> bool \<Rightarrow> 'req HTTP_Session \<Rightarrow>
     session_error + 'req HTTP_Session \<times> 'resp io_action list" where
  "Session_handle_writing_finished peer ec keep_alive s =
     (case ec of
        Some e \<Rightarrow> Session_close peer s
      | None \<Rightarrow>
          (if \<not> keep_alive then Session_close peer s
           else Inr (Session_handle_request_reading (Session_reset_parser s))))"

section \<open>A connection over its lifetime\<close>

text \<open>
  The connection with the operation in flight, and what went over the wire: the requests read
  and the responses whose writing was started. \<open>crashed\<close> records an exception that left a handler.
\<close>

record ('req, 'resp) connection =
  sess :: "'req HTTP_Session"
  in_flight :: "'resp io_action option"
  received :: "'req list"
  sent :: "'resp list"
  crashed :: bool

datatype 'req session_event =
    Read_Done "endpoint option" "string option" 'req
  | Write_Done "endpoint option" "string option"

fun sent_by :: "'resp io_action list \<Rightarrow> 'resp list" where
  "sent_by [] = []"
| "sent_by (Async_Write t res k # acts) = res # sent_by acts"
| "sent_by (_ # acts) = sent_by acts"

text \<open>The operation in flight after a handler: the last one it started, none after a close.\<close>

definition flight_of :: "'resp io_action list \<Rightarrow> 'resp io_action option" where
  "flight_of acts =
     (if acts = [] then None else case last acts of Stream_Close \<Rightarrow> None | a \<Rightarrow> Some a)"

definition settle ::
  "session_error + 'req HTTP_Session \<times> 'resp io_action list \<Rightarrow> ('req, 'resp) connection \<Rightarrow>
     ('req, 'resp) connection" where
  "settle out c =
     (case out of
        Inl e \<Rightarrow> c\<lparr> in_flight := None, crashed := True \<rparr>
      | Inr (s, acts) \<Rightarrow>
          c\<lparr> sess := s, in_flight := flight_of acts, sent := sent c @ sent_by acts \<rparr>)"

definition connection_start :: "('req, 'resp) connection" where
  "connection_start =
     settle (Inr (Session_run Session_new))
       \<lparr> sess = Session_new, in_flight = None, received = [], sent = [], crashed = False \<rparr>"

inductive session_step ::
  "('req, 'resp) http_env \<Rightarrow> ('req, 'resp) HTTP_Handler_Factory \<Rightarrow> HTTP_Router \<Rightarrow>
     ('req, 'resp) connection \<Rightarrow> 'req session_event \<Rightarrow> ('req, 'resp) connection \<Rightarrow> bool"
  for E f r where
  read_ok: "in_flight c = Some (Async_Read t) \<Longrightarrow> \<not> crashed c \<Longrightarrow>
     session_step E f r c (Read_Done peer None req)
       (settle (Session_handle_request_received E f r peer None ((sess c)\<lparr> parser := Some req \<rparr>))
         (c\<lparr> received := received c @ (if peer = None then [] else [req]) \<rparr>))"
| read_error: "in_flight c = Some (Async_Read t) \<Longrightarrow> \<not> crashed c \<Longrightarrow>
     session_step E f r c (Read_Done peer (Some e) req)
       (settle (Session_handle_request_received E f r peer (Some e) (sess c)) c)"
| write_done: "in_flight c = Some (Async_Write t res k) \<Longrightarrow> \<not> crashed c \<Longrightarrow>
     session_step E f r c (Write_Done peer ec)
       (settle (Session_handle_writing_finished peer ec k (sess c)) c)"

inductive_cases session_stepE: "session_step E f r c e d"

text \<open>
  The invariant: every request is answered, in order, by what the router dispatches to; a
  connection that was told to close reads nothing more; exactly one operation is in flight until
  the connection is closed.
\<close>

definition session_ok ::
  "('req, 'resp) http_env \<Rightarrow> ('req, 'resp) HTTP_Handler_Factory \<Rightarrow> HTTP_Router \<Rightarrow>
     ('req, 'resp) connection \<Rightarrow> bool" where
  "session_ok E f r c \<longleftrightarrow>
     sent c = map (Router_dispatch E f r) (received c) \<and>
     (\<forall>res \<in> set (butlast (sent c)). resp_keep_alive E res) \<and>
     (case in_flight c of
        None \<Rightarrow> crashed c \<or> \<not> stream_open (sess c)
      | Some (Async_Read t) \<Rightarrow> \<not> crashed c \<and> stream_open (sess c) \<and> parser (sess c) = None \<and>
          (\<forall>res \<in> set (sent c). resp_keep_alive E res)
      | Some (Async_Write t res k) \<Rightarrow> \<not> crashed c \<and> stream_open (sess c) \<and>
          sent c \<noteq> [] \<and> last (sent c) = res \<and> k = resp_keep_alive E res
      | Some Stream_Close \<Rightarrow> False)"

lemma session_ok_start: "session_ok E f r connection_start"
  by (simp add: session_ok_def connection_start_def settle_def Session_run_def
      Session_handle_request_reading_def flight_of_def Session_new_def Session_reset_parser_def)

lemma settle_close_ok:
  assumes "sent c = map (Router_dispatch E f r) (received c)"
    and "\<forall>res \<in> set (butlast (sent c)). resp_keep_alive E res"
  shows "session_ok E f r (settle (Session_close peer s) c)"
  using assms by (simp add: session_ok_def settle_def Session_close_def flight_of_def split: option.split)

lemma received_ok:
  "Session_handle_request_received E f r (Some ep) None (s\<lparr> parser := Some req \<rparr>) =
     Inr (s\<lparr> parser := None \<rparr>, [Async_Write SEND_RESPONSE_TIMEOUT (Router_dispatch E f r req)
       (resp_keep_alive E (Router_dispatch E f r req))])"
  by (simp add: Session_handle_request_received_def Session_handle_request_def Let_def)

lemma received_gone: "Session_handle_request_received E f r None ec s = Inl Not_Connected"
  by (simp add: Session_handle_request_received_def Session_close_def split: option.split)

lemma in_set_last_butlast: "xs \<noteq> [] \<Longrightarrow> x \<in> set xs \<longleftrightarrow> x = last xs \<or> x \<in> set (butlast xs)"
  by (cases xs rule: rev_cases) auto

lemma session_ok_step:
  assumes ok: "session_ok E f r c" and step: "session_step E f r c e d"
  shows "session_ok E f r d"
  using step
proof cases
  case (read_ok t peer req)
  with ok show ?thesis
    by (cases peer)
       (simp_all add: received_ok received_gone settle_def flight_of_def session_ok_def)
next
  case (read_error t peer e' req)
  with ok settle_close_ok [of c E f r peer "sess c"] show ?thesis
    by (simp add: Session_handle_request_received_def session_ok_def)
next
  case (write_done t res k peer ec)
  have cl: "session_ok E f r (settle (Session_close peer (sess c)) c)"
    using ok by (intro settle_close_ok) (simp_all add: session_ok_def)
  show ?thesis
  proof (cases "ec = None \<and> k")
    case True
    have ne: "sent c \<noteq> []" and "last (sent c) = res" "k = resp_keep_alive E res"
      "\<forall>x \<in> set (butlast (sent c)). resp_keep_alive E x"
      using write_done ok unfolding session_ok_def by auto
    with True have "\<forall>x \<in> set (sent c). resp_keep_alive E x"
      by (auto simp: in_set_last_butlast [OF ne])
    with True write_done ok show ?thesis
      by (auto simp: session_ok_def Session_handle_writing_finished_def settle_def flight_of_def
          Session_handle_request_reading_def Session_reset_parser_def)
  next
    case False
    with write_done cl show ?thesis
      by (auto simp: Session_handle_writing_finished_def split: option.splits)
  qed
qed

interpretation session: invariant_system "\<lambda>c. c = connection_start" "session_step E f r"
  "session_ok E f r" for E f r
  by unfold_locales (auto simp: session_ok_start intro: session_ok_step)


section \<open>Properties\<close>


text \<open>The state after one request for the echo route and its answer.\<close>

definition echo_router :: HTTP_Router where
  "echo_router = \<lparr> routes = [''/echo'' \<mapsto> ''HTTP_Echo_Handler''] \<rparr>"

definition client :: "endpoint option" where
  "client = Some (''127.0.0.1'', 5000)"

lemma ref_read_step:
  assumes "in_flight c = Some (Async_Read t)" "\<not> crashed c"
  shows "session_step ref_env f r c (Read_Done client None req)
     (c\<lparr> received := received c @ [req], sess := (sess c)\<lparr> parser := None \<rparr>,
         in_flight := Some (Async_Write 30 (Router_dispatch ref_env f r req)
           (resp_keep_alive ref_env (Router_dispatch ref_env f r req))),
         sent := sent c @ [Router_dispatch ref_env f r req] \<rparr>)"
  using read_ok [OF assms, of ref_env f r client req]
  by (simp add: client_def received_ok settle_def flight_of_def SEND_RESPONSE_TIMEOUT_def)


text \<open>
  When the peer is gone (\<open>remote_endpoint\<close> throws) every completion that ends the session, and
  every received request, leaves the handler with an exception: the stream is not closed by the
  code, and the exception propagates into the event loop.
\<close>

lemma session_peer_gone_throws:
  assumes "session_step E f r c ev d"
    and "case ev of Read_Done peer ec req \<Rightarrow> peer = None
       | Write_Done peer ec \<Rightarrow> peer = None \<and>
           (ec \<noteq> None \<or> (\<exists>t res. in_flight c = Some (Async_Write t res False)))"
  shows "crashed d \<and> in_flight d = None \<and> stream_open (sess d) = stream_open (sess c)"
  using assms(1)
proof cases
  case (write_done t res k peer ec)
  with assms(2) show ?thesis
    by (cases ec) (auto simp: settle_def Session_handle_writing_finished_def Session_close_def)
qed (use assms(2) in \<open>simp_all add: settle_def received_gone\<close>)

end
