(* ===== verification/Server_Init.thy ===== *)
theory Server_Init
  imports Http_Session
begin

text \<open>
  \<open>src/server/settings.h\<close>, \<open>src/server/initializer.cpp\<close>, \<open>src/httpd/http_acceptor.cpp\<close> and
  \<open>src/server/main.cpp\<close>: reading the configuration, opening the acceptor, and the event loop
  over the acceptor, the signals and all connections. An exception that leaves \<open>main\<close> is
  \<open>Inl ()\<close>. JSON values (nlohmann), the file system and the listening socket are parameters.
\<close>

section \<open>Settings and JSON\<close>

record Settings =
  host :: string
  port :: "16 word"
  threads :: int

definition Settings_default :: Settings where
  "Settings_default = \<lparr> host = ''127.0.0.1'', port = 8080, threads = - 1 \<rparr>"

record 'j json_api =
  json_null :: 'j
  json_clear :: "'j \<Rightarrow> 'j"
  json_empty :: "'j \<Rightarrow> bool"
  json_is_object :: "'j \<Rightarrow> bool"
  json_is_array :: "'j \<Rightarrow> bool"
  json_is_string :: "'j \<Rightarrow> bool"
  json_is_number_unsigned :: "'j \<Rightarrow> bool"
  json_is_number_integer :: "'j \<Rightarrow> bool"
  json_contains :: "string \<Rightarrow> 'j \<Rightarrow> bool"
  json_at :: "string \<Rightarrow> 'j \<Rightarrow> 'j"
  json_get_string :: "'j \<Rightarrow> string"
  json_number_unsigned :: "'j \<Rightarrow> 64 word"
  json_number_integer :: "'j \<Rightarrow> 64 word"
  json_elements :: "'j \<Rightarrow> 'j list"

text \<open>
  \<open>get<unsigned short>\<close> and \<open>get<int>\<close> convert the 64 bit number of a JSON value as a cast does,
  without a range check.
\<close>

definition json_get_ushort :: "'j json_api \<Rightarrow> 'j \<Rightarrow> 16 word" where
  "json_get_ushort J j = ucast (json_number_unsigned J j)"

definition json_get_int :: "'j json_api \<Rightarrow> 'j \<Rightarrow> int" where
  "json_get_int J j = sint (ucast (json_number_integer J j) :: 32 word)"

text \<open>
  What opening and parsing a file gives: it cannot be opened, the parser throws a \<open>parse_error\<close> and
  leaves a partial value behind, it throws another exception (\<open>out_of_range\<close> for a number that no
  \<open>double\<close> holds), or it succeeds.
\<close>

datatype 'j config_file = Cannot_Open | Parse_Error 'j | Other_Exception | Parsed 'j

section \<open>The initializer\<close>

text \<open>\<open>Inl ()\<close> is an exception that is not caught.\<close>

definition parse_from_file :: "'j json_api \<Rightarrow> 'j config_file \<Rightarrow> unit + 'j" where
  "parse_from_file J file =
     (case file of
        Cannot_Open \<Rightarrow> Inr (json_null J)
      | Parse_Error res \<Rightarrow> Inr (json_clear J res)
      | Other_Exception \<Rightarrow> Inl ()
      | Parsed res \<Rightarrow> Inr res)"

record 'j init_env =
  log_dir_exists :: bool
  log_dir_created :: bool
  sink_opens :: bool
  global_config :: "'j config_file"
  handler_config :: "'j config_file"

text \<open>\<open>Inl ()\<close>: the constructor of the rotating file sink throws.\<close>

definition Initializer_init_spdlog :: "'j init_env \<Rightarrow> unit + bool" where
  "Initializer_init_spdlog env =
     (if \<not> log_dir_exists env \<and> \<not> log_dir_created env then Inr False
      else if \<not> sink_opens env then Inl ()
      else Inr True)"

definition Initializer_parse_settings ::
  "'j json_api \<Rightarrow> 'j config_file \<Rightarrow> Settings \<Rightarrow> unit + bool \<times> Settings" where
  "Initializer_parse_settings J file st =
     and_then (parse_from_file J file) (\<lambda>obj.
      if json_empty J obj then Inr (False, st)
      else if \<not> json_is_object J obj then Inr (False, st)
      else
        (let st = (if json_contains J ''host'' obj \<and> json_is_string J (json_at J ''host'' obj)
                   then st\<lparr> host := json_get_string J (json_at J ''host'' obj) \<rparr> else st);
             st = (if json_contains J ''port'' obj \<and> json_is_number_unsigned J (json_at J ''port'' obj)
                   then st\<lparr> port := json_get_ushort J (json_at J ''port'' obj) \<rparr> else st);
             st = (if json_contains J ''threads'' obj \<and> json_is_number_integer J (json_at J ''threads'' obj)
                   then st\<lparr> threads := json_get_int J (json_at J ''threads'' obj) \<rparr> else st)
         in Inr (True, st)))"

text \<open>One element of the handler configuration.\<close>

definition add_configured_route ::
  "'j json_api \<Rightarrow> ('req, 'resp) HTTP_Handler_Factory \<Rightarrow> 'j \<Rightarrow> HTTP_Router \<Rightarrow> HTTP_Router" where
  "add_configured_route J f i r =
     (if \<not> json_is_object J i then r
      else if \<not> json_contains J ''path'' i \<or> \<not> json_is_string J (json_at J ''path'' i) \<or>
              \<not> json_contains J ''handler'' i \<or> \<not> json_is_string J (json_at J ''handler'' i) then r
      else
        (let path = json_get_string J (json_at J ''path'' i);
             handler = json_get_string J (json_at J ''handler'' i)
         in if \<not> Factory_contains handler f then r else Router_add path handler r))"

definition Initializer_parse_http_handler_config ::
  "'j json_api \<Rightarrow> ('req, 'resp) HTTP_Handler_Factory \<Rightarrow> 'j config_file \<Rightarrow> HTTP_Router \<Rightarrow>
     unit + bool \<times> HTTP_Router" where
  "Initializer_parse_http_handler_config J f file r =
     and_then (parse_from_file J file) (\<lambda>arr.
      if \<not> json_is_array J arr then Inr (False, r)
      else Inr (True, foldl (\<lambda>r i. add_configured_route J f i r) r (json_elements J arr)))"

definition Initializer_init ::
  "'j json_api \<Rightarrow> ('req, 'resp) HTTP_Handler_Factory \<Rightarrow> 'j init_env \<Rightarrow> Settings \<Rightarrow> HTTP_Router \<Rightarrow>
     unit + bool \<times> Settings \<times> HTTP_Router" where
  "Initializer_init J f env st r =
     and_then (Initializer_init_spdlog env) (\<lambda>log_ok.
       if \<not> log_ok then Inr (False, st, r)
       else
         and_then (Initializer_parse_settings J (global_config env) st) (\<lambda>(settings_ok, st).
          if \<not> settings_ok then Inr (False, st, r)
          else
            and_then (Initializer_parse_http_handler_config J f (handler_config env) r)
              (\<lambda>(routes_ok, r). Inr (routes_ok, st, r))))"

section \<open>The acceptor\<close>

text \<open>What the steps of opening a listening socket answer: \<open>Some\<close> message when they throw.\<close>

record acceptor_api =
  open_error :: "string option"
  reuse_error :: "string option"
  bind_error :: "string \<times> 16 word \<Rightarrow> string option"
  listen_error :: "string option"

record HTTP_Acceptor =
  acceptor_open :: bool
  accept_pending :: bool

definition Acceptor_new :: "acceptor_api \<Rightarrow> string \<times> 16 word \<Rightarrow> string + HTTP_Acceptor" where
  "Acceptor_new A ep =
     (case open_error A of Some e \<Rightarrow> Inl e | None \<Rightarrow>
      case reuse_error A of Some e \<Rightarrow> Inl e | None \<Rightarrow>
      case bind_error A ep of Some e \<Rightarrow> Inl e | None \<Rightarrow>
      case listen_error A of Some e \<Rightarrow> Inl e | None \<Rightarrow>
        Inr \<lparr> acceptor_open = True, accept_pending = False \<rparr>)"

definition make_acceptor :: "acceptor_api \<Rightarrow> string \<times> 16 word \<Rightarrow> HTTP_Acceptor option" where
  "make_acceptor A ep = (case Acceptor_new A ep of Inl e \<Rightarrow> None | Inr a \<Rightarrow> Some a)"

definition Acceptor_accept :: "HTTP_Acceptor \<Rightarrow> HTTP_Acceptor" where
  "Acceptor_accept a = a\<lparr> accept_pending := True \<rparr>"

definition Acceptor_run :: "HTTP_Acceptor \<Rightarrow> HTTP_Acceptor" where
  "Acceptor_run a = Acceptor_accept a"

definition Acceptor_close :: "HTTP_Acceptor \<Rightarrow> HTTP_Acceptor" where
  "Acceptor_close a = (if acceptor_open a then a\<lparr> acceptor_open := False \<rparr> else a)"

lemma close_keeps_pending [simp]: "accept_pending (Acceptor_close a) = accept_pending a"
  by (simp add: Acceptor_close_def)

text \<open>The completion handler of \<open>async_accept\<close>: the acceptor and the new connection, if any.\<close>

definition Acceptor_on_accept ::
  "string option \<Rightarrow> HTTP_Acceptor \<Rightarrow> HTTP_Acceptor \<times> ('req, 'resp) connection option" where
  "Acceptor_on_accept ec a =
     (let a = a\<lparr> accept_pending := False \<rparr> in
      case ec of
        Some e \<Rightarrow> (Acceptor_close a, None)
      | None \<Rightarrow> (Acceptor_accept a, Some connection_start))"

section \<open>The event loop\<close>

record ('req, 'resp) server =
  acceptor :: HTTP_Acceptor
  connections :: "('req, 'resp) connection list"
  stopped :: bool
  terminated :: bool

text \<open>\<open>main\<close> up to \<open>ioc.run()\<close>: \<open>None\<close> is \<open>EXIT_FAILURE\<close>; \<open>address_error\<close> answers for \<open>make_address\<close>.\<close>

definition server_main ::
  "'j json_api \<Rightarrow> ('req, 'resp) http_env \<Rightarrow> acceptor_api \<Rightarrow> (string \<Rightarrow> string option) \<Rightarrow> 'j init_env \<Rightarrow>
     unit + (HTTP_Router \<times> ('req, 'resp) server) option" where
  "server_main J E A address_error env =
     and_then (Initializer_init J (Factory_at_start E) env Settings_default \<lparr> routes = Map.empty \<rparr>)
       (\<lambda>(ok, st, r).
          if \<not> ok then Inr None
          else if address_error (host st) \<noteq> None then Inr None
          else
            (case make_acceptor A (host st, port st) of
               None \<Rightarrow> Inr None
             | Some a \<Rightarrow>
                 Inr (Some (r, \<lparr> acceptor = Acceptor_run a, connections = [], stopped = False,
                                terminated = False \<rparr>))))"

datatype 'req server_event =
    Accept_Done "string option"
  | Connection nat "'req session_event"
  | Signal int

text \<open>
  One completion handler run by \<open>ioc.run()\<close>. An exception that leaves a session handler leaves
  \<open>run\<close> and \<open>main\<close>, which do not catch it, and terminates the process.
\<close>

inductive server_step ::
  "('req, 'resp) http_env \<Rightarrow> ('req, 'resp) HTTP_Handler_Factory \<Rightarrow> HTTP_Router \<Rightarrow>
     ('req, 'resp) server \<Rightarrow> 'req server_event \<Rightarrow> ('req, 'resp) server \<Rightarrow> bool"
  for E f r where
  accept_done: "\<not> stopped s \<Longrightarrow> \<not> terminated s \<Longrightarrow> accept_pending (acceptor s) \<Longrightarrow>
     Acceptor_on_accept ec (acceptor s) = (a, conn) \<Longrightarrow>
     server_step E f r s (Accept_Done ec)
       (s\<lparr> acceptor := a,
           connections := connections s @ (case conn of None \<Rightarrow> [] | Some c \<Rightarrow> [c]) \<rparr>)"
| connection: "\<not> stopped s \<Longrightarrow> \<not> terminated s \<Longrightarrow> i < length (connections s) \<Longrightarrow>
     session_step E f r (connections s ! i) e d \<Longrightarrow>
     server_step E f r s (Connection i e)
       (s\<lparr> connections := (connections s)[i := d], terminated := crashed d \<rparr>)"
| signal_received: "\<not> stopped s \<Longrightarrow> \<not> terminated s \<Longrightarrow>
     server_step E f r s (Signal signo)
       (s\<lparr> acceptor := Acceptor_close (acceptor s), stopped := True \<rparr>)"

inductive_cases server_stepE: "server_step E f r s e t"

definition server_init :: "('req, 'resp) server \<Rightarrow> bool" where
  "server_init s \<longleftrightarrow>
     s = \<lparr> acceptor = Acceptor_run \<lparr> acceptor_open = True, accept_pending = False \<rparr>,
           connections = [], stopped = False, terminated = False \<rparr>"

section \<open>Invariants\<close>

text \<open>
  Every connection is sound; the process is terminated exactly when a handler has thrown; the
  acceptor waits for a connection exactly as long as it is open and the server is not stopped.
\<close>

definition server_ok ::
  "('req, 'resp) http_env \<Rightarrow> ('req, 'resp) HTTP_Handler_Factory \<Rightarrow> HTTP_Router \<Rightarrow>
     ('req, 'resp) server \<Rightarrow> bool" where
  "server_ok E f r s \<longleftrightarrow>
     (\<forall>c \<in> set (connections s). session_ok E f r c) \<and>
     (terminated s \<longleftrightarrow> (\<exists>c \<in> set (connections s). crashed c)) \<and>
     (stopped s \<or> (accept_pending (acceptor s) \<longleftrightarrow> acceptor_open (acceptor s)))"

lemma server_ok_init: "server_init s \<Longrightarrow> server_ok E f r s"
  by (simp add: server_init_def server_ok_def Acceptor_run_def Acceptor_accept_def)

lemma not_crashed_start [simp]: "\<not> crashed connection_start"
  by (simp add: connection_start_def settle_def Session_run_def Session_handle_request_reading_def)

lemma server_ok_step:
  assumes ok: "server_ok E f r s" and step: "server_step E f r s e t"
  shows "server_ok E f r t"
  using step
proof cases
  case (accept_done ec a conn)
  then show ?thesis using ok
    by (cases ec) (auto simp: server_ok_def Acceptor_on_accept_def Let_def Acceptor_close_def
        Acceptor_accept_def session_ok_start)
next
  case (connection i e' d)
  let ?cs = "connections s"
  have "session_ok E f r d"
    using ok connection by (auto simp: server_ok_def intro: session_ok_step)
  moreover have "\<not> crashed c" if "c \<in> set ?cs" for c
    using ok connection that by (simp add: server_ok_def)
  moreover have "set (?cs[i := d]) \<subseteq> insert d (set ?cs)" "d \<in> set (?cs[i := d])"
    using connection by (auto simp: set_update_subset_insert set_update_memI)
  ultimately show ?thesis
    using ok connection by (auto simp: server_ok_def)
next
  case (signal_received signo)
  then show ?thesis using ok by (simp add: server_ok_def)
qed

interpretation srv: invariant_system server_init "server_step E f r" "server_ok E f r" for E f r
  by unfold_locales (auto intro: server_ok_init server_ok_step)


lemma server_main_starts:
  assumes "server_main J E A address_error env = Inr (Some (r, s))"
  shows "server_init s"
proof -
  have "make_acceptor A ep = Some a \<Longrightarrow> a = \<lparr> acceptor_open = True, accept_pending = False \<rparr>" for ep a
    by (auto simp: make_acceptor_def Acceptor_new_def split: option.splits)
  with assms show ?thesis
    by (fastforce simp: server_main_def and_then_Inr server_init_def split: if_splits option.splits)
qed

section \<open>How start-up fails\<close>

lemma parse_from_file_throws: "parse_from_file J file = Inl () \<longleftrightarrow> file = Other_Exception"
  by (simp add: parse_from_file_def split: config_file.splits)

lemma and_then_Inl: "and_then m f = Inl e \<longleftrightarrow> m = Inl e \<or> (\<exists>x. m = Inr x \<and> f x = Inl e)"
  by (cases m) auto

lemma parse_settings_throws:
  "Initializer_parse_settings J file st = Inl () \<longleftrightarrow> file = Other_Exception"
  by (auto simp: Initializer_parse_settings_def and_then_Inl parse_from_file_throws Let_def)

lemma parse_handlers_throws:
  "Initializer_parse_http_handler_config J f file r = Inl () \<longleftrightarrow> file = Other_Exception"
  by (auto simp: Initializer_parse_http_handler_config_def and_then_Inl parse_from_file_throws)

text \<open>
  Start-up ends in an uncaught exception, instead of a logged failure, exactly when the log file
  cannot be opened or one of the two configuration files makes the JSON parser throw something
  other than a parse error.
\<close>

lemma startup_throws_iff:
  "server_main J E A address_error env = Inl () \<longleftrightarrow>
     (log_dir_exists env \<or> log_dir_created env) \<and>
     (\<not> sink_opens env \<or> global_config env = Other_Exception \<or>
      (\<exists>st. Initializer_parse_settings J (global_config env) Settings_default = Inr (True, st)) \<and>
        handler_config env = Other_Exception)"
proof -
  let ?set = "Initializer_parse_settings J (global_config env) Settings_default"
  let ?hdl = "Initializer_parse_http_handler_config J (Factory_at_start E) (handler_config env)
    \<lparr> routes = Map.empty \<rparr>"
  have rest: "server_main J E A address_error env = Inl () \<longleftrightarrow>
      Initializer_init J (Factory_at_start E) env Settings_default \<lparr> routes = Map.empty \<rparr> = Inl ()"
    by (auto simp: server_main_def and_then_Inl split: option.splits)
  show ?thesis
    unfolding rest Initializer_init_def Initializer_init_spdlog_def
    using parse_settings_throws [of J "global_config env" Settings_default]
      parse_handlers_throws [of J "Factory_at_start E" "handler_config env" "\<lparr> routes = Map.empty \<rparr>"]
    by (cases ?set; cases ?hdl) (auto split: if_splits)
qed

text \<open>A port number beyond 16 bits is taken modulo \<open>2 ^ 16\<close> without a message.\<close>

lemma port_wraps:
  assumes "Initializer_parse_settings J (Parsed obj) st = Inr (True, st')"
    and "json_contains J ''port'' obj" "json_is_number_unsigned J (json_at J ''port'' obj)"
  shows "unat (port st') = unat (json_number_unsigned J (json_at J ''port'' obj)) mod 2 ^ 16"
proof -
  have "port st' = json_get_ushort J (json_at J ''port'' obj)"
    using assms by (auto simp: Initializer_parse_settings_def parse_from_file_def Let_def split: if_splits)
  then show ?thesis by (simp add: json_get_ushort_def unsigned_ucast_eq take_bit_eq_mod)
qed

section \<open>The routing table the configuration gives\<close>

definition routes_registered :: "('req, 'resp) HTTP_Handler_Factory \<Rightarrow> HTTP_Router \<Rightarrow> bool" where
  "routes_registered f r \<longleftrightarrow> (\<forall>p n. routes r p = Some n \<longrightarrow> Factory_contains n f)"

lemma add_configured_route_registered:
  "routes_registered f r \<Longrightarrow> routes_registered f (add_configured_route J f i r)"
  by (simp add: routes_registered_def add_configured_route_def Router_add_def Let_def)

lemma handler_config_registered:
  assumes "routes_registered f r" "Initializer_parse_http_handler_config J f file r = Inr (ok, r')"
  shows "routes_registered f r'"
proof -
  have "routes_registered f (foldl (\<lambda>r i. add_configured_route J f i r) q is)"
    if "routes_registered f q" for q "is"
    using that by (induction "is" arbitrary: q) (simp_all add: add_configured_route_registered)
  with assms show ?thesis
    by (auto simp: Initializer_parse_http_handler_config_def and_then_Inr split: if_splits)
qed

lemma server_main_routes:
  assumes "server_main J E A address_error env = Inr (Some (r, s))"
  shows "routes_registered (Factory_at_start E) r"
proof -
  obtain st st' where
    "Initializer_init J (Factory_at_start E) env st \<lparr> routes = Map.empty \<rparr> = Inr (True, st', r)"
    using assms
    by (fastforce simp: server_main_def and_then_Inr split: if_splits option.splits)
  then obtain ok where "Initializer_parse_http_handler_config J (Factory_at_start E)
      (handler_config env) \<lparr> routes = Map.empty \<rparr> = Inr (ok, r)"
    by (auto simp: Initializer_init_def and_then_Inr split: if_splits)
  moreover have "routes_registered (Factory_at_start E) \<lparr> routes = Map.empty \<rparr>"
    by (simp add: routes_registered_def)
  ultimately show ?thesis by (blast intro: handler_config_registered)
qed

lemma Factory_at_start_contains:
  "Factory_contains n (Factory_at_start E) \<longleftrightarrow> n = ''HTTP_Echo_Handler''"
  by (simp add: Factory_contains_def Factory_at_start_def register_HTTP_Echo_Handler_def
      Factory_register_handler_def Factory_new_def)

lemma Factory_at_start_create:
  "Factory_create ''HTTP_Echo_Handler'' (Factory_at_start E) = Some (HTTP_Echo_Handler E)"
  by (simp add: Factory_at_start_def register_HTTP_Echo_Handler_def factory.make_reg)

section \<open>Properties\<close>


text \<open>A small JSON type and a configuration like the one the repository ships.\<close>

datatype toy_json =
    J_Null
  | J_Str string
  | J_Num nat
  | J_Arr "toy_json list"
  | J_Obj "(string \<times> toy_json) list"

fun toy_members :: "toy_json \<Rightarrow> (string \<times> toy_json) list" where
  "toy_members (J_Obj ms) = ms"
| "toy_members _ = []"

fun toy_elements :: "toy_json \<Rightarrow> toy_json list" where
  "toy_elements (J_Arr xs) = xs"
| "toy_elements _ = []"

fun toy_string :: "toy_json \<Rightarrow> string" where
  "toy_string (J_Str s) = s"
| "toy_string _ = []"

fun toy_number :: "toy_json \<Rightarrow> nat" where
  "toy_number (J_Num n) = n"
| "toy_number _ = 0"

definition toy_json_api :: "toy_json json_api" where
  "toy_json_api =
     \<lparr> json_null = J_Null, json_clear = (\<lambda>_. J_Null),
       json_empty = (\<lambda>j. j = J_Null \<or> j = J_Arr [] \<or> j = J_Obj []),
       json_is_object = (\<lambda>j. case j of J_Obj _ \<Rightarrow> True | _ \<Rightarrow> False),
       json_is_array = (\<lambda>j. case j of J_Arr _ \<Rightarrow> True | _ \<Rightarrow> False),
       json_is_string = (\<lambda>j. case j of J_Str _ \<Rightarrow> True | _ \<Rightarrow> False),
       json_is_number_unsigned = (\<lambda>j. case j of J_Num _ \<Rightarrow> True | _ \<Rightarrow> False),
       json_is_number_integer = (\<lambda>j. case j of J_Num _ \<Rightarrow> True | _ \<Rightarrow> False),
       json_contains = (\<lambda>k j. map_of (toy_members j) k \<noteq> None),
       json_at = (\<lambda>k j. the (map_of (toy_members j) k)),
       json_get_string = toy_string, json_number_unsigned = (\<lambda>j. of_nat (toy_number j)),
       json_number_integer = (\<lambda>j. of_nat (toy_number j)), json_elements = toy_elements \<rparr>"

definition shipped_config :: "toy_json init_env" where
  "shipped_config =
     \<lparr> log_dir_exists = True, log_dir_created = False, sink_opens = True,
       global_config = Parsed (J_Obj [(''host'', J_Str ''127.0.0.1''), (''port'', J_Num 8080),
         (''threads'', J_Num 1)]),
       handler_config = Parsed (J_Arr [J_Obj [(''path'', J_Str ''/echo''),
         (''handler'', J_Str ''HTTP_Echo_Handler'')]]) \<rparr>"

definition good_socket :: acceptor_api where
  "good_socket = \<lparr> open_error = None, reuse_error = None, bind_error = (\<lambda>_. None),
     listen_error = None \<rparr>"

lemma shipped_main:
  "server_main toy_json_api ref_env good_socket (\<lambda>_. None) shipped_config =
     Inr (Some (echo_router,
       \<lparr> acceptor = \<lparr> acceptor_open = True, accept_pending = True \<rparr>, connections = [],
         stopped = False, terminated = False \<rparr>))"
  by (simp add: server_main_def Initializer_init_def Initializer_init_spdlog_def shipped_config_def
      Initializer_parse_settings_def parse_from_file_def toy_json_api_def good_socket_def Let_def
      Initializer_parse_http_handler_config_def add_configured_route_def Factory_at_start_contains
      Router_add_def make_acceptor_def Acceptor_new_def Acceptor_run_def Acceptor_accept_def
      echo_router_def)


text \<open>
  C28: One client can end the whole server. In any reachable state in which the server runs and
  some connection waits for a request, a failed read on a socket whose peer is gone makes the
  session throw out of the event loop; the process is terminated and no event is handled any
  more, on any connection.
\<close>

theorem server_reset_terminates:
  assumes "reach server_init (server_step E f r) s" "\<not> stopped s" "\<not> terminated s"
    and "i < length (connections s)" "in_flight (connections s ! i) = Some (Async_Read t)"
  shows "\<exists>d. server_step E f r s (Connection i (Read_Done None (Some e) req)) d \<and>
     terminated d \<and> (\<forall>ev d'. \<not> server_step E f r d ev d')"
proof -
  let ?c = "connections s ! i"
  have "server_ok E f r s" using assms(1) by (rule srv.reach_inv)
  then have "\<not> crashed ?c" using assms(3,4) by (auto simp: server_ok_def)
  from read_error [OF assms(5) this, of E f r None e req]
  have step: "session_step E f r ?c (Read_Done None (Some e) req)
      (?c\<lparr> in_flight := None, crashed := True \<rparr>)"
    by (simp add: received_gone settle_def)
  let ?d = "s\<lparr> connections := (connections s)[i := ?c\<lparr> in_flight := None, crashed := True \<rparr>],
     terminated := True \<rparr>"
  have "server_step E f r s (Connection i (Read_Done None (Some e) req)) ?d"
    using connection [OF assms(2-4) step] by simp
  moreover have "\<not> server_step E f r ?d ev d'" for ev d' by (auto elim: server_stepE)
  ultimately show ?thesis by (intro exI [of _ ?d]) simp
qed

theorem server_reset_terminates_witness:
  "\<exists>s d :: (ref_request, ref_response) server.
     reach server_init (server_step ref_env (Factory_at_start ref_env) echo_router) s \<and>
     server_step ref_env (Factory_at_start ref_env) echo_router s
       (Connection 0 (Read_Done None (Some ''reset'') (ref_get []))) d \<and> terminated d"
proof -
  let ?step = "server_step ref_env (Factory_at_start ref_env) echo_router"
  let ?init = "\<lparr> acceptor = Acceptor_run \<lparr> acceptor_open = True, accept_pending = False \<rparr>,
     connections = [], stopped = False, terminated = False \<rparr> :: (ref_request, ref_response) server"
  let ?s = "?init\<lparr> connections := [connection_start] \<rparr>"
  have "?step ?init (Accept_Done None) ?s"
    using accept_done [of ?init None _ "Some connection_start" ref_env "Factory_at_start ref_env" echo_router]
    by (simp add: Acceptor_on_accept_def Acceptor_run_def Acceptor_accept_def)
  moreover have "reach server_init ?step ?init" by (rule reach_init) (simp add: server_init_def)
  ultimately have reach: "reach server_init ?step ?s" by (blast intro: reach_step)
  have "in_flight (connections ?s ! 0) = Some (Async_Read 30)"
    by (simp add: connection_start_def settle_def Session_run_def flight_of_def
        Session_handle_request_reading_def RECEIVE_REQUEST_TIMEOUT_def)
  from server_reset_terminates [OF reach _ _ _ this] reach show ?thesis by fastforce
qed


text \<open>One client served: accepted, its request read and the answer being written.\<close>

lemma shipped_serves:
  obtains s :: "(ref_request, ref_response) server" and c where
    "reach (\<lambda>s. s = \<lparr> acceptor = \<lparr> acceptor_open = True, accept_pending = True \<rparr>, connections = [],
         stopped = False, terminated = False \<rparr>)
       (server_step ref_env (Factory_at_start ref_env) echo_router) s"
    "connections s = [c]" "received c = [ref_get ''/echo'']"
proof -
  let ?step = "server_step ref_env (Factory_at_start ref_env) echo_router"
  let ?init = "\<lparr> acceptor = \<lparr> acceptor_open = True, accept_pending = True \<rparr>, connections = [],
     stopped = False, terminated = False \<rparr> :: (ref_request, ref_response) server"
  let ?s = "?init\<lparr> connections := [connection_start] \<rparr>"
  let ?start = "connection_start :: (ref_request, ref_response) connection"
  have "?step ?init (Accept_Done None) ?s"
    using accept_done [of ?init None _ "Some connection_start" ref_env "Factory_at_start ref_env" echo_router]
    by (simp add: Acceptor_on_accept_def Acceptor_accept_def)
  then have r1: "reach (\<lambda>s. s = ?init) ?step ?s" by (blast intro: reach.intros)
  have start: "in_flight ?start = Some (Async_Read 30)" "\<not> crashed ?start" "received ?start = []"
    by (simp_all add: connection_start_def settle_def Session_run_def flight_of_def
        Session_handle_request_reading_def RECEIVE_REQUEST_TIMEOUT_def)
  obtain c where c: "session_step ref_env (Factory_at_start ref_env) echo_router ?start
      (Read_Done client None (ref_get ''/echo'')) c" "received c = [ref_get ''/echo'']"
    using ref_read_step [OF start(1,2), of "Factory_at_start ref_env" echo_router "ref_get ''/echo''"]
      start(3) by fastforce
  let ?t = "?s\<lparr> connections := [c], terminated := crashed c \<rparr>"
  have "?step ?s (Connection 0 (Read_Done client None (ref_get ''/echo''))) ?t"
    using connection [of ?s 0] c(1) by fastforce
  then have "reach (\<lambda>s. s = ?init) ?step ?t" by (rule reach_step [OF r1])
  then show thesis using c(2) by (auto intro: that)
qed


text \<open>
  A failed accept is final. Whatever the error (the code distinguishes none), the acceptor is
  closed and no connection is ever accepted again, while the server goes on running for the
  connections it has.
\<close>

lemma server_accept_error_final:
  assumes "server_step E f r s (Accept_Done (Some e)) t" and "reach (\<lambda>x. x = t) (server_step E f r) u"
  shows "\<not> stopped t \<and> \<not> terminated t \<and> \<not> accept_pending (acceptor u) \<and>
    length (connections u) = length (connections s)"
proof -
  have t: "\<not> stopped t \<and> \<not> terminated t \<and> \<not> accept_pending (acceptor t) \<and>
      length (connections t) = length (connections s)"
    using assms(1) by (auto elim!: server_stepE simp: Acceptor_on_accept_def Let_def)
  have "\<not> accept_pending (acceptor u) \<and> length (connections u) = length (connections t)"
    using assms(2)
  proof induction
    case (reach_step s1 ev s2)
    then show ?case by (auto elim!: server_stepE)
  qed (use t in simp)
  with t show ?thesis by simp
qed

end
