(* ===== verification/String_Sprintf.thy ===== *)
theory String_Sprintf
  imports Prelude
begin

text \<open>
  \<open>src/foundation/string_sprintf.h\<close>: formatting into a growing string, and
  \<open>src/foundation/deleter.h\<close>: the scope guard. \<open>std::vsnprintf\<close> is a parameter: for a buffer size
  it answers the length and the bytes it stores. The loop of \<open>string_vsprintf\<close> has no bound of
  its own, so it is a partial function, and that it returns is proved from the documented
  behaviour of \<open>vsnprintf\<close>.
\<close>

section \<open>string\_vsprintf\<close>

definition SPRINTF_INITIAL_SIZE :: nat where "SPRINTF_INITIAL_SIZE = 128"

text \<open>\<open>static_cast<int>\<close> of a \<open>size_t\<close>, and \<open>std::string::resize\<close>.\<close>

definition cast_int :: "nat \<Rightarrow> int" where
  "cast_int n = signed_take_bit 31 (int n)"

definition resize :: "nat \<Rightarrow> string \<Rightarrow> string" where
  "resize n s = take n s @ replicate (n - length s) (CHR 0x00)"

text \<open>Storing bytes at \<open>str.data() + pos\<close>.\<close>

definition store_at :: "nat \<Rightarrow> string \<Rightarrow> string \<Rightarrow> string" where
  "store_at pos w s = take pos s @ w @ drop (pos + length w) s"

type_synonym vsnprintf = "nat \<Rightarrow> int \<times> string"

partial_function (option) vsprintf_loop :: "vsnprintf \<Rightarrow> nat \<Rightarrow> string \<Rightarrow> (int \<times> string) option" where
  "vsprintf_loop vsn pos str =
     (let size = length str - pos;
          str = (if size < SPRINTF_INITIAL_SIZE then resize (pos + SPRINTF_INITIAL_SIZE) str else str);
          size = (if size < SPRINTF_INITIAL_SIZE then SPRINTF_INITIAL_SIZE else size);
          (len, written) = vsn size;
          str = store_at pos written str
      in if len < 0 then Some (len, if pos \<noteq> 0 then resize pos str else [])
         else if len < cast_int size then
           (let str = resize (pos + nat len) str in Some (cast_int (length str), str))
         else vsprintf_loop vsn pos (resize (pos + nat len + 1) str))"

definition string_vsprintf :: "vsnprintf \<Rightarrow> bool \<Rightarrow> string \<Rightarrow> (int \<times> string) option" where
  "string_vsprintf vsn appending str =
     (let pos = (if appending then length str else 0) in vsprintf_loop vsn pos str)"

definition string_sprintf_new :: "vsnprintf \<Rightarrow> string option" where
  "string_sprintf_new vsn = map_option snd (string_vsprintf vsn False [])"

definition string_sprintf :: "vsnprintf \<Rightarrow> string \<Rightarrow> (int \<times> string) option" where
  "string_sprintf vsn str = string_vsprintf vsn False str"

definition string_sprintf_append :: "vsnprintf \<Rightarrow> string \<Rightarrow> (int \<times> string) option" where
  "string_sprintf_append vsn str = string_vsprintf vsn True str"

section \<open>What vsnprintf promises\<close>

text \<open>
  For a format and arguments whose output is \<open>out\<close>: the length of \<open>out\<close> whatever the buffer, and
  as much of it as fits before a terminating zero byte.
\<close>

definition vsn_formats :: "vsnprintf \<Rightarrow> string \<Rightarrow> bool" where
  "vsn_formats vsn out \<longleftrightarrow>
     (\<forall>size > 0. vsn size = (int (length out), take (size - 1) out @ [CHR 0x00]))"

text \<open>An output error: a negative number, nothing usable stored.\<close>

definition vsn_fails :: "vsnprintf \<Rightarrow> bool" where
  "vsn_fails vsn \<longleftrightarrow> (\<forall>size > 0. fst (vsn size) < 0 \<and> length (snd (vsn size)) \<le> size)"

lemma cast_int_small: "n < 2 ^ 31 \<Longrightarrow> cast_int n = int n"
  unfolding cast_int_def by (rule signed_take_bit_int_eq_self) simp_all

lemma cast_int_le: "cast_int n \<le> int n"
  unfolding cast_int_def by (simp add: signed_take_bit_int_less_eq_self_iff)

lemma length_resize [simp]: "length (resize n s) = n"
  by (simp add: resize_def)

lemma take_resize: "p \<le> n \<Longrightarrow> p \<le> length s \<Longrightarrow> take p (resize n s) = take p s"
  by (simp add: resize_def min_def)

lemma resize_store:
  assumes "pos + length w \<le> length s" "k \<le> length w"
  shows "resize (pos + k) (store_at pos w s) = take pos s @ take k w"
  using assms by (simp add: resize_def store_at_def min_def)

lemma take_store: "pos \<le> length s \<Longrightarrow> take pos (store_at pos w s) = take pos s"
  by (simp add: store_at_def)


lemma length_store: "pos \<le> length s \<Longrightarrow> pos \<le> length (store_at pos w s)"
  by (simp add: store_at_def)

section \<open>The loop returns\<close>

text \<open>The buffer size of a round.\<close>

definition round_size :: "nat \<Rightarrow> string \<Rightarrow> nat" where
  "round_size pos str = max SPRINTF_INITIAL_SIZE (length str - pos)"

lemma vsprintf_round:
  assumes "vsn_formats vsn out" "pos \<le> length str"
  shows "\<exists>X. take pos X = take pos str \<and> pos \<le> length X \<and>
    vsprintf_loop vsn pos str =
      (if int (length out) < cast_int (round_size pos str)
       then Some (cast_int (pos + length out), take pos str @ out)
       else vsprintf_loop vsn pos (resize (pos + length out + 1) X))"
proof -
  let ?size = "round_size pos str"
  let ?w = "take (?size - 1) out @ [CHR 0x00]"
  define s where "s = (if length str - pos < SPRINTF_INITIAL_SIZE
     then resize (pos + SPRINTF_INITIAL_SIZE) str else str)"
  have size: "(if length str - pos < SPRINTF_INITIAL_SIZE then SPRINTF_INITIAL_SIZE
      else length str - pos) = ?size" by (simp add: round_size_def)
  have "0 < ?size" by (simp add: round_size_def SPRINTF_INITIAL_SIZE_def)
  then have vsn: "vsn ?size = (int (length out), ?w)"
    using assms(1) by (simp add: vsn_formats_def)
  have s: "take pos s = take pos str" "pos + ?size \<le> length s"
    using assms(2) by (auto simp: s_def round_size_def take_resize)
  have loop: "vsprintf_loop vsn pos str =
      (if int (length out) < cast_int ?size
       then Some (cast_int (pos + length out), resize (pos + length out) (store_at pos ?w s))
       else vsprintf_loop vsn pos (resize (pos + length out + 1) (store_at pos ?w s)))"
    by (subst vsprintf_loop.simps) (simp only: Let_def size vsn s_def [symmetric] prod.case
        if_False of_nat_less_0_iff nat_int length_resize)
  have fits: "resize (pos + length out) (store_at pos ?w s) = take pos str @ out"
    if "int (length out) < cast_int ?size"
  proof -
    have "length out < ?size" using that cast_int_le [of ?size] by linarith
    then have "pos + length ?w \<le> length s" "length out \<le> length ?w" "take (length out) ?w = out"
      using s(2) by (auto simp: min_def)
    with resize_store [of pos ?w s "length out"] s(1) show ?thesis by simp
  qed
  have "pos \<le> length s" using s(2) by simp
  then have "take pos (store_at pos ?w s) = take pos str" "pos \<le> length (store_at pos ?w s)"
    using s(1) by (simp_all add: take_store length_store)
  with loop fits show ?thesis by (intro exI [of _ "store_at pos ?w s"]) auto
qed

lemma vsprintf_returns:
  assumes "vsn_formats vsn out" "pos \<le> length str" "length out + 1 < 2 ^ 31"
  shows "vsprintf_loop vsn pos str = Some (cast_int (pos + length out), take pos str @ out)"
proof (cases "int (length out) < cast_int (round_size pos str)")
  case True
  with vsprintf_round [OF assms(1,2)] show ?thesis by auto
next
  case False
  with vsprintf_round [OF assms(1,2)] obtain X where
    X: "take pos X = take pos str" "pos \<le> length X"
      "vsprintf_loop vsn pos str = vsprintf_loop vsn pos (resize (pos + length out + 1) X)"
    by auto
  let ?s = "resize (pos + length out + 1) X"
  have "round_size pos ?s < 2 ^ 31" "length out < round_size pos ?s"
    using assms(3) by (simp_all add: round_size_def SPRINTF_INITIAL_SIZE_def)
  then have "int (length out) < cast_int (round_size pos ?s)" by (simp add: cast_int_small)
  with vsprintf_round [OF assms(1), of pos ?s] X show ?thesis by (auto simp: take_resize)
qed

lemma vsprintf_error:
  assumes "vsn_fails vsn" "pos \<le> length str"
  shows "\<exists>e < 0. vsprintf_loop vsn pos str = Some (e, take pos str)"
proof -
  let ?size = "round_size pos str"
  define s where "s = (if length str - pos < SPRINTF_INITIAL_SIZE
     then resize (pos + SPRINTF_INITIAL_SIZE) str else str)"
  obtain e w where v: "vsn ?size = (e, w)" by fastforce
  have size: "(if length str - pos < SPRINTF_INITIAL_SIZE then SPRINTF_INITIAL_SIZE
      else length str - pos) = ?size" by (simp add: round_size_def)
  have "0 < ?size" by (simp add: round_size_def SPRINTF_INITIAL_SIZE_def)
  with assms(1) have "fst (vsn ?size) < 0 \<and> length (snd (vsn ?size)) \<le> ?size"
    unfolding vsn_fails_def by blast
  with v have e: "e < 0" "length w \<le> ?size" by simp_all
  have s: "take pos s = take pos str" "pos + ?size \<le> length s"
    using assms(2) by (auto simp: s_def round_size_def take_resize)
  have "resize pos (store_at pos w s) = take pos str"
    using resize_store [of pos w s 0] s e(2) by simp
  moreover have "vsprintf_loop vsn pos str =
      Some (e, if pos \<noteq> 0 then resize pos (store_at pos w s) else [])"
    using e(1) by (subst vsprintf_loop.simps)
      (simp only: Let_def size v s_def [symmetric] prod.case if_True)
  ultimately show ?thesis using e(1) by auto
qed

section \<open>Scope guard\<close>

text \<open>
  A \<open>Scoped_Deleter\<close> holds a functor, here an effect on a world \<open>'w\<close>, and whether it is armed.
\<close>

record 'w Scoped_Deleter =
  del :: "'w \<Rightarrow> 'w"
  valid :: bool

definition Scoped_Deleter_new :: "('w \<Rightarrow> 'w) \<Rightarrow> 'w Scoped_Deleter" where
  "Scoped_Deleter_new d = \<lparr> del = d, valid = True \<rparr>"

definition make_deleter :: "('w \<Rightarrow> 'w) \<Rightarrow> 'w Scoped_Deleter" where
  "make_deleter d = Scoped_Deleter_new d"

text \<open>The move constructor: the new guard and the one moved from.\<close>

definition Scoped_Deleter_move :: "'w Scoped_Deleter \<Rightarrow> 'w Scoped_Deleter \<times> 'w Scoped_Deleter" where
  "Scoped_Deleter_move rhs = (\<lparr> del = del rhs, valid = True \<rparr>, rhs\<lparr> valid := False \<rparr>)"

definition Scoped_Deleter_release :: "'w Scoped_Deleter \<Rightarrow> 'w Scoped_Deleter" where
  "Scoped_Deleter_release g = g\<lparr> valid := False \<rparr>"

definition Scoped_Deleter_free :: "'w Scoped_Deleter \<Rightarrow> 'w \<Rightarrow> 'w Scoped_Deleter \<times> 'w" where
  "Scoped_Deleter_free g w = (g\<lparr> valid := False \<rparr>, if valid g then del g w else w)"

definition Scoped_Deleter_dtor :: "'w Scoped_Deleter \<Rightarrow> 'w \<Rightarrow> 'w" where
  "Scoped_Deleter_dtor g w = snd (Scoped_Deleter_free g w)"

text \<open>Of a guard and the guard moved from it, exactly one runs the functor.\<close>

lemma moved_runs_once:
  "Scoped_Deleter_dtor (fst (Scoped_Deleter_move g))
     (Scoped_Deleter_dtor (snd (Scoped_Deleter_move g)) w) = del g w"
  by (simp add: Scoped_Deleter_dtor_def Scoped_Deleter_free_def Scoped_Deleter_move_def)

lemma released_runs_nothing: "Scoped_Deleter_dtor (Scoped_Deleter_release g) w = w"
  by (simp add: Scoped_Deleter_dtor_def Scoped_Deleter_free_def Scoped_Deleter_release_def)

text \<open>Moving from a released guard arms the new one: the flag is not carried over.\<close>

lemma move_rearms: "valid (fst (Scoped_Deleter_move (Scoped_Deleter_release g)))"
  by (simp add: Scoped_Deleter_move_def)

section \<open>Properties\<close>


definition ref_vsnprintf :: "string \<Rightarrow> vsnprintf" where
  "ref_vsnprintf out n = (int (length out), take (n - 1) out @ [CHR 0x00])"


end
