(* ===== verification/Aps_Solver.thy ===== *)
theory Aps_Solver
  imports String_Sprintf
begin

text \<open>
  \<^verbatim>\<open>process/aps_solver.cpp\<close>: the stand-alone program the scheduler is tried out with. It draws a
  running time and an amount of memory, fills that memory, sleeps and exits. The random draws, the
  allocator and \<open>vsnprintf\<close> are parameters; what it prints goes through \<open>string_sprintf\<close> of theory
  \<open>String_Sprintf\<close>. A run is \<open>None\<close> when the formatting loop does not return.
\<close>

section \<open>The program\<close>

datatype printf_arg = Int_Arg int | Size_Arg size_t

text \<open>
  What surrounds the program: the two distributions over the seeded generator, the formatter for
  a format string and its arguments, and whether a vector of so many bytes can be allocated.
\<close>

record 'g solver_env =
  seeded :: 'g
  draw_int :: "int \<Rightarrow> int \<Rightarrow> 'g \<Rightarrow> int \<times> 'g"
  draw_size :: "size_t \<Rightarrow> size_t \<Rightarrow> 'g \<Rightarrow> size_t \<times> 'g"
  formatter :: "string \<Rightarrow> printf_arg list \<Rightarrow> vsnprintf"
  allocates :: "size_t \<Rightarrow> bool"

record solver_run =
  printed :: string
  memory_buffer :: "8 word list"
  slept :: int
  exit_code :: int

definition newline :: string where "newline = [CHR 0x0A]"

definition solver_banner :: "'g solver_env \<Rightarrow> int \<Rightarrow> size_t \<Rightarrow> string option" where
  "solver_banner V target_seconds target_megabytes =
     Option.bind (string_sprintf_new (formatter V ''[Status] Begin ro run solver ...'' [])) (\<lambda>l1.
     Option.bind (string_sprintf_new (formatter V ''[Status]   Simulated runtime: %d seconds''
                    [Int_Arg target_seconds])) (\<lambda>l2.
     Option.bind (string_sprintf_new (formatter V ''[Status]   Simulated memory: %u MB''
                    [Size_Arg target_megabytes])) (\<lambda>l3.
       Some (l1 @ newline @ l2 @ newline @ l3 @ newline))))"

text \<open>\<open>std::fill\<close> over a whole vector.\<close>

definition fill_buffer :: "8 word \<Rightarrow> 8 word list \<Rightarrow> 8 word list" where
  "fill_buffer v buf = map (\<lambda>_. v) buf"

definition solver_main :: "'g solver_env \<Rightarrow> solver_run option" where
  "solver_main V =
     (let (target_seconds, gen) = draw_int V 10 30 (seeded V);
          (target_megabytes, gen) = draw_size V 64 1024 gen;
          bytes = target_megabytes * 1024 * 1024
      in Option.bind (solver_banner V target_seconds target_megabytes) (\<lambda>banner.
           if \<not> allocates V bytes
           then Some \<lparr> printed = banner, memory_buffer = [], slept = 0, exit_code = - 1 \<rparr>
           else
             (let buf = fill_buffer 0xAA (replicate (unat bytes) 0)
              in Option.bind
                   (string_sprintf_new (formatter V ''[Status] Succeed to run solver, goodbye.'' []))
                   (\<lambda>l. Some \<lparr> printed = banner @ l @ newline, memory_buffer = buf,
                              slept = target_seconds, exit_code = 0 \<rparr>))))"

section \<open>What the program relies on\<close>

text \<open>Decimal digits of an integer.\<close>

fun digits :: "nat \<Rightarrow> string" where
  "digits n = (if n < 10 then [char_of (48 + n)] else digits (n div 10) @ [char_of (48 + n mod 10)])"

declare digits.simps [simp del]

definition decimal :: "int \<Rightarrow> string" where
  "decimal i = (if i < 0 then ''-'' @ digits (nat (- i)) else digits (nat i))"

text \<open>
  Distributions stay in their range; \<open>vsnprintf\<close> copies a format without conversions and replaces
  \<open>%d\<close> by an \<open>int\<close> argument in decimal. For the third line, whose \<open>%u\<close> is given a \<open>size_t\<close>, the
  C standard promises nothing: that some short text comes out is a separate hypothesis.
\<close>

definition draws_in_range :: "'g solver_env \<Rightarrow> bool" where
  "draws_in_range V \<longleftrightarrow>
     (\<forall>a b g. a \<le> b \<longrightarrow> a \<le> fst (draw_int V a b g) \<and> fst (draw_int V a b g) \<le> b) \<and>
     (\<forall>a b g. a \<le> b \<longrightarrow> a \<le> fst (draw_size V a b g) \<and> fst (draw_size V a b g) \<le> b)"

definition formats_documented :: "'g solver_env \<Rightarrow> bool" where
  "formats_documented V \<longleftrightarrow>
     (\<forall>f. CHR ''%'' \<notin> set f \<longrightarrow> vsn_formats (formatter V f []) f) \<and>
     (\<forall>pre post i. CHR ''%'' \<notin> set (pre @ post) \<longrightarrow>
        vsn_formats (formatter V (pre @ ''%d'' @ post) [Int_Arg i]) (pre @ decimal i @ post))"

definition memory_line :: "'g solver_env \<Rightarrow> size_t \<Rightarrow> string \<Rightarrow> bool" where
  "memory_line V m l \<longleftrightarrow> length l + 1 < 2 ^ 31 \<and>
     vsn_formats (formatter V ''[Status]   Simulated memory: %u MB'' [Size_Arg m]) l"

lemma sprintf_new_result:
  assumes "vsn_formats vsn out" "length out + 1 < 2 ^ 31"
  shows "string_sprintf_new vsn = Some out"
  using vsprintf_returns [of vsn out 0 "[]"] assms
  by (simp add: string_sprintf_new_def string_vsprintf_def)

lemma length_digits: "n < 10 ^ Suc k \<Longrightarrow> length (digits n) \<le> Suc k"
proof (induction k arbitrary: n)
  case 0
  then show ?case by (simp add: digits.simps)
next
  case (Suc k)
  then have "n div 10 < 10 ^ Suc k" by (simp add: less_mult_imp_div_less mult.commute)
  with Suc.IH show ?case by (subst digits.simps) simp
qed

lemma length_decimal_seconds: "10 \<le> i \<Longrightarrow> i \<le> 30 \<Longrightarrow> length (decimal i) \<le> 2"
  using length_digits [of "nat i" 1] by (simp add: decimal_def nat_less_iff)

lemma sprintf_plain:
  assumes "formats_documented V" "CHR ''%'' \<notin> set f" "length f + 1 < 2 ^ 31"
  shows "string_sprintf_new (formatter V f []) = Some f"
  using assms by (intro sprintf_new_result) (simp_all add: formats_documented_def)

lemma sprintf_int:
  assumes "formats_documented V" "CHR ''%'' \<notin> set (pre @ post)"
    and "length (pre @ decimal i @ post) + 1 < 2 ^ 31"
  shows "string_sprintf_new (formatter V (pre @ ''%d'' @ post) [Int_Arg i]) = Some (pre @ decimal i @ post)"
proof (rule sprintf_new_result)
  show "vsn_formats (formatter V (pre @ ''%d'' @ post) [Int_Arg i]) (pre @ decimal i @ post)"
    using assms(1,2) unfolding formats_documented_def by blast
qed (rule assms(3))

lemma solver_banner_result:
  assumes "formats_documented V" "10 \<le> i" "i \<le> 30" "memory_line V m l"
  shows "solver_banner V i m = Some (''[Status] Begin ro run solver ...'' @ newline @
    ''[Status]   Simulated runtime: '' @ decimal i @ '' seconds'' @ newline @ l @ newline)"
proof -
  have l1: "string_sprintf_new (formatter V ''[Status] Begin ro run solver ...'' []) =
      Some ''[Status] Begin ro run solver ...''"
    using assms(1) by (rule sprintf_plain) simp_all
  have "string_sprintf_new (formatter V (''[Status]   Simulated runtime: '' @ ''%d'' @ '' seconds'')
      [Int_Arg i]) = Some (''[Status]   Simulated runtime: '' @ decimal i @ '' seconds'')"
    using assms(1) by (rule sprintf_int) (use length_decimal_seconds [OF assms(2,3)] in simp_all)
  then have l2: "string_sprintf_new (formatter V ''[Status]   Simulated runtime: %d seconds''
      [Int_Arg i]) = Some (''[Status]   Simulated runtime: '' @ decimal i @ '' seconds'')"
    unfolding append_Cons append_Nil .
  have l3: "string_sprintf_new (formatter V ''[Status]   Simulated memory: %u MB'' [Size_Arg m]) = Some l"
    using assms(4) unfolding memory_line_def by (blast intro: sprintf_new_result)
  show ?thesis
    unfolding solver_banner_def l1 l2 l3 Option.bind.simps append_assoc ..
qed

text \<open>The memory does not wrap around in \<open>size_t\<close>.\<close>

lemma solver_bytes:
  fixes m :: size_t
  assumes "64 \<le> m" "m \<le> 1024"
  shows "unat (m * 1024 * 1024) = unat m * 2 ^ 20" "64 \<le> unat m" "unat m \<le> 1024"
proof -
  show b: "64 \<le> unat m" "unat m \<le> 1024"
    using assms by (simp_all add: word_le_nat_alt)
  have "unat (m * 1024) = unat m * 1024"
    using b by (simp add: unat_word_ariths)
  then show "unat (m * 1024 * 1024) = unat m * 2 ^ 20"
    using b by (simp add: unat_word_ariths)
qed


text \<open>A concrete environment: the smallest draws, and a formatter that knows the two conversions.\<close>

fun expand :: "string \<Rightarrow> printf_arg list \<Rightarrow> string" where
  "expand [] args = []"
| "expand [c] args = [c]"
| "expand (c # d # f) args =
     (if c = CHR ''%'' then
        (case args of
           Int_Arg i # rest \<Rightarrow> decimal i @ expand f rest
         | Size_Arg m # rest \<Rightarrow> digits (unat m) @ expand f rest
         | [] \<Rightarrow> c # expand (d # f) args)
      else c # expand (d # f) args)"

definition least_env :: "bool \<Rightarrow> unit solver_env" where
  "least_env ok =
     \<lparr> seeded = (), draw_int = (\<lambda>a b g. (a, g)), draw_size = (\<lambda>a b g. (a, g)),
       formatter = (\<lambda>f args. ref_vsnprintf (expand f args)), allocates = (\<lambda>_. ok) \<rparr>"

lemma expand_plain: "CHR ''%'' \<notin> set f \<Longrightarrow> expand f args = f"
  by (induction f args rule: expand.induct) auto

lemma expand_Cons: "c \<noteq> CHR ''%'' \<Longrightarrow> expand (c # f) args = c # expand f args"
  by (cases f) simp_all

lemma expand_after: "CHR ''%'' \<notin> set pre \<Longrightarrow> expand (pre @ f) args = pre @ expand f args"
  by (induction pre) (auto simp: expand_Cons)

lemma ref_formats: "vsn_formats (ref_vsnprintf out) out"
  by (simp add: vsn_formats_def ref_vsnprintf_def)

lemma least_env_documented: "draws_in_range (least_env ok)" "formats_documented (least_env ok)"
proof -
  show "draws_in_range (least_env ok)" by (simp add: draws_in_range_def least_env_def)
  have "expand (pre @ ''%d'' @ post) [Int_Arg i] = pre @ decimal i @ post"
    if "CHR ''%'' \<notin> set (pre @ post)" for pre post i
    using that by (simp add: expand_after expand_plain)
  then show "formats_documented (least_env ok)"
    unfolding formats_documented_def least_env_def
    using ref_formats expand_plain by (metis (no_types, lifting) solver_env.select_convs(4))
qed


end
