(* ===== verification/Curl_Client.thy ===== *)
theory Curl_Client
  imports Prelude
begin

text \<open>
  \<open>src/curl_client\<close>: the HTTP client over libcurl. An easy handle is a value of type \<open>'c\<close>; the
  calls of libcurl are the parameter \<open>curl\<close>. A transfer invokes the registered callbacks with
  buffers; the buffers it delivers are part of the answer of \<open>curl_easy_perform\<close>. Which lists of
  headers are freed and which are leaked is part of the result of a call.
\<close>

section \<open>Data\<close>

datatype CURL_HTTP_Method = GET | POST

record CURL_Request =
  request_method :: CURL_HTTP_Method
  req_target :: string
  req_headers :: "string list"
  req_body :: string
  connect_timeout :: int
  transfer_timeout :: int
  follow_redirects :: bool
  verify_ssl_peer :: bool
  verify_ssl_host :: bool
  user_agent :: string

record CURL_Response =
  status :: int
  headers :: "string list"
  body :: string

definition CURL_Response_clear :: "CURL_Response \<Rightarrow> CURL_Response" where
  "CURL_Response_clear resp = resp\<lparr> status := 0, headers := [], body := [] \<rparr>"

datatype curl_option =
    CURLOPT_HTTPGET int
  | CURLOPT_POST int
  | CURLOPT_URL string
  | CURLOPT_CONNECTTIMEOUT int
  | CURLOPT_TIMEOUT int
  | CURLOPT_FOLLOWLOCATION int
  | CURLOPT_SSL_VERIFYPEER int
  | CURLOPT_SSL_VERIFYHOST int
  | CURLOPT_USERAGENT string
  | CURLOPT_HEADERFUNCTION
  | CURLOPT_HEADERDATA
  | CURLOPT_WRITEFUNCTION
  | CURLOPT_WRITEDATA
  | CURLOPT_HTTPHEADER "string list option"
  | CURLOPT_POSTFIELDS string
  | CURLOPT_POSTFIELDSIZE nat
  | CURLOPT_ERRORBUFFER

text \<open>A call of a callback: the buffer and the two size arguments.\<close>

datatype transfer_chunk =
    Header_Chunk string size_t size_t
  | Body_Chunk string size_t size_t

record 'c curl =
  curl_easy_init :: "'c option"
  curl_easy_reset :: "'c \<Rightarrow> 'c"
  curl_easy_setopt :: "curl_option \<Rightarrow> 'c \<Rightarrow> 'c"
  curl_easy_perform :: "'c \<Rightarrow> 'c \<times> nat \<times> transfer_chunk list"
  curl_response_code :: "'c \<Rightarrow> nat \<times> int"
  curl_slist_append :: "string list option \<Rightarrow> string \<Rightarrow> string list option"

definition CURLE_OK :: nat where "CURLE_OK = 0"

section \<open>The code\<close>

definition header_writer :: "string \<Rightarrow> size_t \<Rightarrow> size_t \<Rightarrow> string list \<Rightarrow> size_t \<times> string list" where
  "header_writer buff size_arg nmemb hs =
     (let len = size_arg * nmemb; h = take (unat len) buff in (len, hs @ [h]))"

definition body_writer :: "string \<Rightarrow> size_t \<Rightarrow> size_t \<Rightarrow> string \<Rightarrow> size_t \<times> string" where
  "body_writer buff size_arg nmemb b =
     (let len = size_arg * nmemb in (len, b @ take (unat len) buff))"

text \<open>The callbacks run by a transfer, with the response members as their contexts.\<close>

fun deliver_chunk :: "transfer_chunk \<Rightarrow> CURL_Response \<Rightarrow> CURL_Response" where
  "deliver_chunk (Header_Chunk buff n m) resp =
     resp\<lparr> headers := snd (header_writer buff n m (headers resp)) \<rparr>"
| "deliver_chunk (Body_Chunk buff n m) resp =
     resp\<lparr> body := snd (body_writer buff n m (body resp)) \<rparr>"

definition CURL_Client_new :: "'c curl \<Rightarrow> 'c option" where
  "CURL_Client_new C = curl_easy_init C"

definition setup_common_options :: "'c curl \<Rightarrow> CURL_Request \<Rightarrow> 'c \<Rightarrow> 'c" where
  "setup_common_options C req c =
     (let c = curl_easy_setopt C (CURLOPT_URL (req_target req)) c;
          c = curl_easy_setopt C (CURLOPT_CONNECTTIMEOUT (connect_timeout req)) c;
          c = curl_easy_setopt C (CURLOPT_TIMEOUT (transfer_timeout req)) c;
          c = (if follow_redirects req then curl_easy_setopt C (CURLOPT_FOLLOWLOCATION 1) c else c);
          c = (if verify_ssl_peer req then curl_easy_setopt C (CURLOPT_SSL_VERIFYPEER 1) c else c);
          c = (if verify_ssl_host req then curl_easy_setopt C (CURLOPT_SSL_VERIFYHOST 1) c else c);
          c = (if user_agent req \<noteq> [] then curl_easy_setopt C (CURLOPT_USERAGENT (user_agent req)) c
               else c);
          c = curl_easy_setopt C CURLOPT_HEADERFUNCTION c;
          c = curl_easy_setopt C CURLOPT_HEADERDATA c;
          c = curl_easy_setopt C CURLOPT_WRITEFUNCTION c
      in curl_easy_setopt C CURLOPT_WRITEDATA c)"

text \<open>
  The destructor of the client: the handles it passes to \<open>curl_easy_cleanup\<close>.
\<close>

definition CURL_Client_dtor :: "'c option \<Rightarrow> 'c list" where
  "CURL_Client_dtor handle = (case handle of None \<Rightarrow> [] | Some c \<Rightarrow> [c])"

text \<open>
  The list of headers is owned by a unique pointer, \<open>None\<close> when null. Its deleter passes the list
  to \<open>curl_slist_free_all\<close>. Each append releases the pointer and takes the new list, which
  contains the old one; when \<open>curl_slist_append\<close> returns null, nobody owns the released list any
  more. \<open>freed\<close> and \<open>lost\<close> collect the lists that are freed and the ones that never are.
\<close>

record slist_memory =
  freed :: "string list list"
  lost :: "string list list"

definition CURL_Slist_Deleter :: "string list option \<Rightarrow> string list list" where
  "CURL_Slist_Deleter p = (if p \<noteq> None then [the p] else [])"

definition append_header ::
  "'c curl \<Rightarrow> string list option \<times> slist_memory \<Rightarrow> string \<Rightarrow> string list option \<times> slist_memory" where
  "append_header C st h =
     (case st of (ptr, mem) \<Rightarrow>
        let new_list = curl_slist_append C ptr h;
            released = (case ptr of None \<Rightarrow> [] | Some l \<Rightarrow> [l])
        in (new_list, if new_list = None then mem\<lparr> lost := lost mem @ released \<rparr> else mem))"

definition setup_headers ::
  "'c curl \<Rightarrow> CURL_Request \<Rightarrow> 'c \<Rightarrow> 'c \<times> string list option \<times> slist_memory" where
  "setup_headers C req c =
     (let (ptr, mem) = foldl (append_header C) (None, \<lparr> freed = [], lost = [] \<rparr>) (req_headers req)
      in (curl_easy_setopt C (CURLOPT_HTTPHEADER ptr) c, ptr, mem))"

definition perform_request ::
  "'c curl \<Rightarrow> 'c \<Rightarrow> CURL_Response \<Rightarrow> bool \<times> 'c \<times> CURL_Response" where
  "perform_request C c resp =
     (let c = curl_easy_setopt C CURLOPT_ERRORBUFFER c;
          (c, rc, chunks) = curl_easy_perform C c;
          resp = fold deliver_chunk chunks resp
      in if rc \<noteq> CURLE_OK then (False, c, resp)
         else
           (let (rc, code) = curl_response_code C c
            in if rc \<noteq> CURLE_OK then (False, c, resp) else (True, c, resp\<lparr> status := code \<rparr>)))"

definition CURL_Client_send ::
  "'c curl \<Rightarrow> CURL_Request \<Rightarrow> 'c option \<Rightarrow> CURL_Response \<Rightarrow>
     bool \<times> 'c option \<times> CURL_Response \<times> slist_memory" where
  "CURL_Client_send C req handle resp =
     (case handle of
        None \<Rightarrow> (False, None, resp, \<lparr> freed = [], lost = [] \<rparr>)
      | Some c \<Rightarrow>
          (let c = curl_easy_reset C c;
               resp = CURL_Response_clear resp;
               c = (case request_method req of
                      GET \<Rightarrow> curl_easy_setopt C (CURLOPT_HTTPGET 1) c
                    | POST \<Rightarrow> curl_easy_setopt C (CURLOPT_POST 1) c);
               c = setup_common_options C req c;
               (c, hdr, mem) = setup_headers C req c;
               c = (case request_method req of
                      GET \<Rightarrow> c
                    | POST \<Rightarrow>
                        curl_easy_setopt C (CURLOPT_POSTFIELDSIZE (length (req_body req)))
                          (curl_easy_setopt C (CURLOPT_POSTFIELDS (req_body req)) c));
               (ok, c, resp) = perform_request C c resp
           in (ok, Some c, resp, mem\<lparr> freed := freed mem @ CURL_Slist_Deleter hdr \<rparr>)))"

section \<open>The options of a request\<close>

text \<open>The sequence of options \<open>send\<close> sets, with \<open>hdr\<close> the header list.\<close>

definition send_options :: "CURL_Request \<Rightarrow> string list option \<Rightarrow> curl_option list" where
  "send_options req hdr =
     (case request_method req of GET \<Rightarrow> [CURLOPT_HTTPGET 1] | POST \<Rightarrow> [CURLOPT_POST 1]) @
     [CURLOPT_URL (req_target req), CURLOPT_CONNECTTIMEOUT (connect_timeout req),
      CURLOPT_TIMEOUT (transfer_timeout req)] @
     (if follow_redirects req then [CURLOPT_FOLLOWLOCATION 1] else []) @
     (if verify_ssl_peer req then [CURLOPT_SSL_VERIFYPEER 1] else []) @
     (if verify_ssl_host req then [CURLOPT_SSL_VERIFYHOST 1] else []) @
     (if user_agent req \<noteq> [] then [CURLOPT_USERAGENT (user_agent req)] else []) @
     [CURLOPT_HEADERFUNCTION, CURLOPT_HEADERDATA, CURLOPT_WRITEFUNCTION, CURLOPT_WRITEDATA,
      CURLOPT_HTTPHEADER hdr] @
     (case request_method req of
        GET \<Rightarrow> []
      | POST \<Rightarrow> [CURLOPT_POSTFIELDS (req_body req), CURLOPT_POSTFIELDSIZE (length (req_body req))]) @
     [CURLOPT_ERRORBUFFER]"

definition header_list :: "'c curl \<Rightarrow> CURL_Request \<Rightarrow> string list option" where
  "header_list C req = foldl (curl_slist_append C) None (req_headers req)"

definition lost_lists :: "'c curl \<Rightarrow> CURL_Request \<Rightarrow> string list list" where
  "lost_lists C req =
     lost (snd (foldl (append_header C) (None, \<lparr> freed = [], lost = [] \<rparr>) (req_headers req)))"

text \<open>The bytes of the chunks of one kind.\<close>

fun chunk_header :: "transfer_chunk \<Rightarrow> string list" where
  "chunk_header (Header_Chunk buff n m) = [take (unat (n * m)) buff]"
| "chunk_header (Body_Chunk buff n m) = []"

fun chunk_body :: "transfer_chunk \<Rightarrow> string" where
  "chunk_body (Header_Chunk buff n m) = []"
| "chunk_body (Body_Chunk buff n m) = take (unat (n * m)) buff"

lemma deliver_chunks:
  "fold deliver_chunk chunks resp =
     resp\<lparr> headers := headers resp @ concat (map chunk_header chunks),
           body := body resp @ concat (map chunk_body chunks) \<rparr>"
proof (induction chunks arbitrary: resp)
  case (Cons x xs)
  then show ?case
    by (cases x) (simp_all add: header_writer_def body_writer_def Let_def)
qed simp

lemma append_headers:
  "fst (foldl (append_header C) (ptr, mem) hs) = foldl (curl_slist_append C) ptr hs"
  "freed (snd (foldl (append_header C) (ptr, mem) hs)) = freed mem"
  by (induction hs arbitrary: ptr mem) (simp_all add: append_header_def Let_def)

lemma setup_headers_eq:
  "setup_headers C req c =
     (curl_easy_setopt C (CURLOPT_HTTPHEADER (header_list C req)) c, header_list C req,
      \<lparr> freed = [], lost = lost_lists C req \<rparr>)"
proof -
  let ?r = "foldl (append_header C) (None, \<lparr> freed = [], lost = [] \<rparr>) (req_headers req)"
  have "?r = (header_list C req, \<lparr> freed = [], lost = lost_lists C req \<rparr>)"
    using append_headers [of C None "\<lparr> freed = [], lost = [] \<rparr>" "req_headers req"]
    by (simp add: header_list_def lost_lists_def prod_eq_iff)
  then show ?thesis by (simp add: setup_headers_def)
qed

lemma send_eq:
  "CURL_Client_send C req (Some c) resp =
     (let (c, rc, chunks) = curl_easy_perform C
            (fold (curl_easy_setopt C) (send_options req (header_list C req)) (curl_easy_reset C c));
          got = \<lparr> status = 0, headers = concat (map chunk_header chunks),
                  body = concat (map chunk_body chunks) \<rparr>;
          (rc', code) = curl_response_code C c;
          mem = \<lparr> freed = CURL_Slist_Deleter (header_list C req), lost = lost_lists C req \<rparr>
      in if rc \<noteq> CURLE_OK \<or> rc' \<noteq> CURLE_OK then (False, Some c, got, mem)
         else (True, Some c, got\<lparr> status := code \<rparr>, mem))"
  by (cases "request_method req")
     (simp_all add: CURL_Client_send_def send_options_def setup_common_options_def
       setup_headers_eq perform_request_def deliver_chunks CURL_Response_clear_def Let_def split_def)

section \<open>Properties\<close>



text \<open>A library that logs the options and delivers one header and a body in two pieces.\<close>

definition log_curl :: "curl_option list curl" where
  "log_curl =
     \<lparr> curl_easy_init = Some [], curl_easy_reset = (\<lambda>_. []),
       curl_easy_setopt = (\<lambda>opt c. c @ [opt]),
       curl_easy_perform = (\<lambda>c. (c, 0, [Header_Chunk ''A: b'' 1 4, Body_Chunk ''hel'' 1 3,
         Body_Chunk ''lo, world'' 1 2])),
       curl_response_code = (\<lambda>c. (0, 200)),
       curl_slist_append = (\<lambda>l h. Some (case l of None \<Rightarrow> [h] | Some hs \<Rightarrow> hs @ [h])) \<rparr>"

definition insecure_post :: CURL_Request where
  "insecure_post =
     \<lparr> request_method = POST, req_target = ''https://host/x'', req_headers = [''X: y''],
       req_body = ''data'', connect_timeout = 10, transfer_timeout = 30, follow_redirects = True,
       verify_ssl_peer = False, verify_ssl_host = False, user_agent = ''inks'' \<rparr>"


section \<open>Ownership of the header list\<close>

text \<open>
  \<open>curl_slist_append\<close> as documented: the list with the string at its end, or null when it is out
  of memory.
\<close>

definition slist_documented :: "'c curl \<Rightarrow> bool" where
  "slist_documented C \<longleftrightarrow>
     (\<forall>l h. curl_slist_append C l h = None \<or>
        curl_slist_append C l h = Some ((case l of None \<Rightarrow> [] | Some hs \<Rightarrow> hs) @ [h]))"

lemma append_all:
  assumes "slist_documented C" "\<And>l h. h \<in> set hs \<Longrightarrow> curl_slist_append C l h \<noteq> None"
  shows "foldl (append_header C) (ptr, mem) hs =
    (if hs = [] then ptr else Some ((case ptr of None \<Rightarrow> [] | Some l \<Rightarrow> l) @ hs), mem)"
  using assms(2)
proof (induction hs arbitrary: ptr)
  case (Cons h hs)
  then have "curl_slist_append C ptr h = Some ((case ptr of None \<Rightarrow> [] | Some l \<Rightarrow> l) @ [h])"
    using assms(1) unfolding slist_documented_def by (metis list.set_intros(1))
  then have "append_header C (ptr, mem) h = (Some ((case ptr of None \<Rightarrow> [] | Some l \<Rightarrow> l) @ [h]), mem)"
    by (simp add: append_header_def)
  with Cons show ?case by simp
qed simp

text \<open>With enough memory every header is sent and the one list is freed.\<close>

lemma headers_all_sent:
  assumes "slist_documented C" "\<And>l h. h \<in> set (req_headers req) \<Longrightarrow> curl_slist_append C l h \<noteq> None"
  shows "header_list C req = (if req_headers req = [] then None else Some (req_headers req))"
    and "lost_lists C req = []"
proof -
  let ?m = "\<lparr> freed = [], lost = [] \<rparr>"
  have all: "foldl (append_header C) (None, ?m) (req_headers req) =
      (if req_headers req = [] then None else Some (req_headers req), ?m)"
    using append_all [OF assms, of "req_headers req" None ?m] by simp
  show "header_list C req = (if req_headers req = [] then None else Some (req_headers req))"
    unfolding header_list_def append_headers(1) [of C None ?m, symmetric] all by simp
  show "lost_lists C req = []" by (simp add: lost_lists_def all)
qed

text \<open>
  When one append fails, the headers before it are dropped from the request and leaked, the failing
  one is dropped, and the transfer goes on with the ones after it.
\<close>

lemma headers_append_fails:
  assumes doc: "slist_documented C" and hs: "req_headers req = pre @ bad # post" "pre \<noteq> []" "post \<noteq> []"
    and ok: "\<And>l h. h \<in> set pre \<union> set post \<Longrightarrow> curl_slist_append C l h \<noteq> None"
    and bad: "\<And>l. curl_slist_append C l bad = None"
  shows "header_list C req = Some post" "lost_lists C req = [pre]"
proof -
  let ?m = "\<lparr> freed = [], lost = [] \<rparr>"
  have 1: "foldl (append_header C) (None, ?m) pre = (Some pre, ?m)"
    using append_all [OF doc, of pre None ?m] ok hs(2) by simp
  have 2: "append_header C (Some pre, ?m) bad = (None, \<lparr> freed = [], lost = [pre] \<rparr>)"
    by (simp add: append_header_def bad)
  have "foldl (append_header C) (None, ?m) (req_headers req) = (Some post, \<lparr> freed = [], lost = [pre] \<rparr>)"
    using append_all [OF doc, of post None "\<lparr> freed = [], lost = [pre] \<rparr>"] ok hs(1,3) 1 2 by simp
  then show "header_list C req = Some post" "lost_lists C req = [pre]"
    using append_headers(1) [of C None ?m "req_headers req"]
    by (simp_all add: header_list_def lost_lists_def)
qed

end
