(* ===== verification/Spec2Isabelle.thy ===== *)
theory Spec2Isabelle
  imports Aps_Interleaving Aps_Board Aps_Output Process_Manager_Threads Path_Normalize LRU
    Process_Killer Server_Init Aps_Solver Curl_Client
begin

text \<open>
  \<^bold>\<open>The program.\<close> An HTTP server with a process scheduler beside it, in C++ under \<open>src/\<close>:
  \<^item> \<open>process/\<close>: the asynchronous process scheduler (\<open>aps_*\<close>), which runs queued jobs as child
    processes on a bounded number of lanes, the process manager and handler it starts them with,
    the process killer, and the solver, a stand-alone program used as a job;
  \<^item> \<open>httpd/\<close> and \<open>server/\<close>: acceptor, session, router, handlers, URI parser and percent decoding,
    the start-up from configuration files and the event loop of \<open>main\<close>;
  \<^item> \<open>foundation/\<close>: path normalisation, LRU cache, exponential backoff, string formatting, scope guard,
    tokenizing;
  \<^item> \<open>curl_client/\<close>: an HTTP client over libcurl.

  \<^bold>\<open>Conventions.\<close> Classes are records, member functions are definitions named
  \<open>Class_function\<close>, \<open>size_t\<close> and \<open>unsigned\<close> are words with their wrap-around where arithmetic on
  them can overflow. Undefined behaviour (null or dangling pointers, empty containers) is the
  \<open>Inl\<close> side of a sum, sequenced by \<open>and_then\<close>; exceptions are values of a sum or an option. Code
  that is not in the repository is an argument: Boost.Process and the system calls
  (\<open>process_api\<close>), \<open>kill\<close> (\<open>killer_env\<close>), Boost string algorithms (\<open>boost\<close>), Boost.Beast messages
  (\<open>http_env\<close>), sockets (\<open>acceptor_api\<close>), JSON (\<open>json_api\<close>), libcurl (\<open>curl\<close>), \<open>vsnprintf\<close>,
  random draws. What a theorem uses of them is a named hypothesis (\<open>boost_documented\<close>,
  \<open>beast_documented\<close>, \<open>vsn_formats\<close>, \<open>draws_in_range\<close>, \<open>slist_documented\<close> and so on) that concrete
  functions are shown to satisfy.

  \<^bold>\<open>Scheduler.\<close> \<open>Aps_Job\<close> holds the data of the jobs. \<open>Aps_Pending_Queue\<close>
  (\<open>aps_pending_queue.cpp\<close>) and \<open>Aps_Finished_Storage\<close> (\<open>aps_finished_storage.cpp\<close>) state their
  interfaces as the locales \<open>fifo_queue\<close> and the storage contract and interpret them on the code;
  \<open>Aps_P90\<close> (\<open>aps_p90_estimator.cpp\<close>) shows that the window holds the most recent samples and that
  \<open>compute\<close> returns the exact percentile. \<open>Aps_Scheduler\<close> translates every handler of
  \<open>aps_scheduler.cpp\<close>; \<open>Aps_Scheduler_Inv\<close> has one preservation lemma per operation; \<open>Aps_System\<close> is
  the step relation of all events (submissions, loop iterations, exits, timeouts, changes of the
  outside world) in any order, with the invariants lifted to every reachable state, and the locale
  \<open>process_service\<close> of what the scheduler needs of the process manager (\<open>total_process_service\<close>
  adds that its calls are defined); \<open>Aps_Properties\<close> has the guarantees: lane capacities and exact
  counters, no job lost, progress, draining after \<open>stop\<close>, every handler defined, each handler branch by branch, and what goes
  wrong for duplicate identifiers and failed spawns. \<open>Aps_Results\<close> follows a job from the head of
  the queue to its record, across any events in between, shows what the storage of finished jobs
  holds and that every reachable state can be run to the end of all jobs; \<open>Aps_Output\<close> shows that
  the output of the jobs is never read. \<open>Aps_Board\<close> is the abstract specification, a board of
  waiting, running and recorded jobs, which the scheduler refines event by event.
  \<open>Aps_Interleaving\<close> splits \<open>run_loop\<close> into its single calls on the shared queue and shows it
  linearisable against pushes of other threads; a second consumer of the queue breaks it.

  \<^bold>\<open>Processes.\<close> \<open>Process_Handler\<close> (\<open>process_handler.cpp\<close>), \<open>Wait_Status\<close> (the macros on exit
  codes), \<open>Process_Manager\<close> (\<open>process_manager.cpp\<close>, one call after another) with the invariant that
  every owned handler has the child it is filed under. \<open>Process_Output\<close> is the read loop of one
  stream against the pipe of the child: lines arrive whole and in order, and at end of file the loop
  spins. \<open>Process_Manager_Threads\<close> is the manager
  with several threads over a heap of handlers: memory safety under a discipline on \<open>wait\<close>, the
  use after free without it, and the refinement of the sequential calls. \<open>Process_Killer\<close>
  (\<open>process_killer.cpp\<close>) runs on \<open>Backoff\<close> (\<open>exponential_backoff_iterator.h\<close>). \<open>Aps_Solver\<close> is the
  program of \<open>aps_solver.cpp\<close>.

  \<^bold>\<open>HTTP server.\<close> \<open>Http_Codec\<close> (percent decoding against the set of well-formed inputs and every
  encoder), \<open>Http_Uri\<close> (the parser, with the print-parse round trip), \<open>Http_Handler\<close> (responses,
  handlers, the factory and its locale), \<open>Http_Router\<close> (the search finds the longest route that
  covers the path by whole segments; what \<open>dispatch\<close> answers), \<open>Http_Session\<close> (one connection: its
  completion handlers as a step relation; requests answered in order), \<open>Server_Init\<close> (settings,
  handler configuration, acceptor, \<open>main\<close> and the events run by \<open>ioc.run()\<close>; from the
  configuration file to the answer, exceptions that leave the start-up, the soundness of the running
  server, and the two ways one error ends its service).

  \<^bold>\<open>Foundation.\<close> \<open>Path_Normalize\<close> (two paths have the same normal form exactly when they denote
  the same place), \<open>LRU\<close> (the linked list with iterators refines a list in order of use),
  \<open>String_Sprintf\<close> (the growing loop returns, as a partial function with its termination proved;
  also the scope guard), \<open>Curl_Client\<close> (one request, with the ownership of the header list).

  \<^bold>\<open>Shared.\<close> \<open>Prelude\<close> has the machine types, lemmas on words, maps and lists, undefined
  behaviour, reachable states with the locale \<open>invariant_system\<close>, which every step relation
  interprets, its extension \<open>step_refinement\<close>, and \<open>call_refinement\<close>, which lifts a one-call
  simulation to sequences of calls.

  \<^bold>\<open>Loops.\<close> Index loops are recursive functions with a measure; the retry loop of \<open>Backoff\<close> has
  the retries left as its measure. The formatting loop has no bound of its own: it is a partial
  function that is proved to return. No fuel is used. \<open>run_loop\<close> takes at most
  six steps in \<open>Aps_Interleaving\<close>, the bound of its theorem.

  \<^bold>\<open>Not modelled.\<close> Logging has no effect on the models. Time passes only through the arguments
  \<open>now\<close> and the events of timers; that a timer fires after its delay is left to Boost.Asio, as are
  the bytes on the wire and the expiry of stream timeouts. Data races of the unlocked readers
  of the pending queue are undefined behaviour in C++ and outside the models, which let each call
  read at one moment. The tests, the build files and the packaging are not program logic; the
  expectations of the tests are evaluated on the models.
\<close>

end
